theory Spec2Isabelle
  imports Main "HOL-Library.Word"
begin

unbundle bit_operations_syntax

section \<open>Machine types\<close>

type_synonym u8 = "8 word"
type_synonym u16 = "16 word"
type_synonym u32 = "32 word"
type_synonym u64 = "64 word"

text \<open>
  System calls return \<open>sysreturn\<close>, a signed 64-bit value: a negative errno or a
  non-negative result. \<open>Inl e\<close> stands for the C value \<open>-e\<close>, \<open>Inr v\<close> for the
  value \<open>v\<close>. Kernel-level failures that are not return values (a failed
  \<open>assert\<close>, a store through a null pointer, an access outside a buffer, an
  overflow of a signed counter) are \<open>fault\<close>s.
\<close>

datatype errno = EFAULT | EINVAL | ENOMEM | EBADF | EAGAIN | EINTR | ERESTARTSYS

type_synonym sysreturn = "errno + int"

datatype fault = AssertFail | NullDeref | MemFault | SignedOverflow


section \<open>PCI configuration access (platform/pc/pci.c)\<close>

text \<open>
  Modelled from the spec: \<open>struct pci_dev\<close> and the limits \<open>PCI_BUSMAX\<close>,
  \<open>PCI_SLOTMAX\<close>, \<open>PCI_FUNCMAX\<close>, \<open>PCI_REGMAX\<close> are declared in \<open>pci.h\<close>,
  which is not among the sources. The spec's data model gives
  \<open>PciAddress (bus: u8 \<le> 255, slot: u8 \<le> 31, function: u8 \<le> 7)\<close> and the
  contract \<open>reg \<le> 255\<close>. The field \<open>function\<close> is named \<open>func\<close> here.
\<close>

record pci_dev =
  bus :: u8
  slot :: u8
  func :: u8

definition PCI_BUSMAX :: u32 where "PCI_BUSMAX = 255"
definition PCI_SLOTMAX :: u32 where "PCI_SLOTMAX = 31"
definition PCI_FUNCMAX :: u32 where "PCI_FUNCMAX = 7"
definition PCI_REGMAX :: u32 where "PCI_REGMAX = 255"

definition CONF1_ADDR_PORT :: u16 where "CONF1_ADDR_PORT = 0x0cf8"
definition CONF1_DATA_PORT :: u32 where "CONF1_DATA_PORT = 0x0cfc"

text \<open>
  \<open>pci_cfgenable(dev, reg, bytes)\<close>. The arguments \<open>reg\<close> and \<open>bytes\<close> are C
  \<open>int\<close>s; the guard compares them after a cast to \<open>unsigned\<close>, so they are
  32-bit words compared unsigned. The result is the list of \<open>out32\<close> port writes
  performed (port, value) and the returned data port.
\<close>

definition conf1_addr :: "pci_dev \<Rightarrow> u32 \<Rightarrow> u32" where
  "conf1_addr dev reg =
     push_bit 31 1 OR push_bit 16 (ucast (bus dev)) OR push_bit 11 (ucast (slot dev))
       OR push_bit 8 (ucast (func dev)) OR (reg AND NOT 3)"

definition pci_cfgenable :: "pci_dev \<Rightarrow> u32 \<Rightarrow> u32 \<Rightarrow> (u16 \<times> u32) list \<times> u32" where
  "pci_cfgenable dev reg bytes =
     (if ucast (bus dev) \<le> PCI_BUSMAX \<and> ucast (slot dev) \<le> PCI_SLOTMAX \<and>
         ucast (func dev) \<le> PCI_FUNCMAX \<and>
         reg \<le> PCI_REGMAX \<and> bytes \<noteq> 3 \<and> bytes \<le> 4 \<and> reg AND (bytes - 1) = 0
      then ([(CONF1_ADDR_PORT, conf1_addr dev reg)], CONF1_DATA_PORT + (reg AND 3))
      else ([], 0))"

text \<open>
  \<open>pci_cfgread\<close>: the port reads \<open>in8\<close>, \<open>in16\<close>, \<open>in32\<close> are a parameter
  \<open>inp\<close> (width in bytes, port). The result is the port writes and the data read;
  \<open>data\<close> starts as \<open>-1\<close>.
\<close>

definition pci_cfgread ::
  "(nat \<Rightarrow> u32 \<Rightarrow> u32) \<Rightarrow> pci_dev \<Rightarrow> u32 \<Rightarrow> u32 \<Rightarrow> (u16 \<times> u32) list \<times> u32" where
  "pci_cfgread inp dev reg bytes =
     (let (writes, port) = pci_cfgenable dev reg bytes in
      if port \<noteq> 0 then
        (if bytes = 1 then (writes, inp 1 port)
         else if bytes = 2 then (writes, inp 2 port)
         else if bytes = 4 then (writes, inp 4 port)
         else (writes, - 1))
      else (writes, - 1))"

section \<open>Asynchronous I/O ring (src/unix/aio.c)\<close>

subsection \<open>Data\<close>

text \<open>
  \<open>struct io_event\<close> is declared outside the sources; its four 64-bit fields are
  those of the ring layout in the spec (\<open>data, obj, res, res2\<close>, 32 bytes).
\<close>

record io_event =
  data :: u64
  obj :: u64
  res :: u64
  res2 :: u64

text \<open>
  \<open>struct aio_ring\<close>: the header followed by the event area. The field \<open>id\<close> is
  named \<open>ring_id\<close>. \<open>events\<close> holds every slot of the mapped area.
\<close>

record aio_ring =
  ring_id :: u32
  nr :: u32
  head :: u32
  tail :: u32
  magic :: u32
  compat_features :: u32
  incompat_features :: u32
  header_length :: u32
  events :: "io_event list"

text \<open>
  \<open>struct aio\<close>. The pointer \<open>ring\<close> is modelled by the ring it points to; the
  field \<open>nr\<close> is named \<open>aio_nr\<close>; \<open>bq\<close> is whether a blockq is attached;
  \<open>refcount\<close> is the number of references (\<open>aio_free\<close>, run when it reaches
  zero, is not modelled).
\<close>

record aio =
  ring :: aio_ring
  bq :: bool
  aio_nr :: u32
  ongoing_ops :: u32
  copied_evts :: u32
  refcount :: nat

definition AIO_RING_MAGIC :: u32 where "AIO_RING_MAGIC = 0xa10a10a1"

definition PAGESIZE :: u64 where "PAGESIZE = 4096"

definition sizeof_aio_ring :: u64 where "sizeof_aio_ring = 32"

definition sizeof_io_event :: u64 where "sizeof_io_event = 32"

definition pad :: "u64 \<Rightarrow> u64 \<Rightarrow> u64" where
  "pad x a = (x + a - 1) AND NOT (a - 1)"

text \<open>
  \<open>pad(sizeof(*ctx) + nr_events * sizeof(struct io_event), PAGESIZE)\<close>, computed
  in 64 bits from the 32-bit slot count (in \<open>io_setup\<close> and again in \<open>aio_free\<close>).
\<close>

definition aio_alloc_size :: "u32 \<Rightarrow> u64" where
  "aio_alloc_size n = pad (sizeof_aio_ring + ucast n * sizeof_io_event) PAGESIZE"

subsection \<open>io_setup\<close>

text \<open>
  What the rest of the kernel answers during \<open>io_setup\<close>:
  \<open>fault_in_user_memory(ctx_idp, ..., true)\<close>; \<open>allocate_u64\<close> on the physical
  heap (\<open>None\<close> is \<open>INVALID_PHYSICAL\<close>); \<open>process_map_physical\<close> (\<open>None\<close> is
  \<open>INVALID_ADDRESS\<close>, otherwise the mapped memory as it is at that moment, seen
  as an \<open>aio_ring\<close>); \<open>aio_alloc\<close> (\<open>None\<close> when it returns 0, otherwise the id
  it stores through \<open>&ctx->id\<close>). The field \<open>copied_evts\<close>, which \<open>io_setup\<close>
  leaves as allocated and \<open>io_getevents\<close> sets to 0 before it is read, is 0 in
  the context returned.
\<close>

record setup_env =
  ctx_idp_writable :: bool
  phys_alloc :: "u64 \<Rightarrow> u64 option"
  map_physical :: "u64 \<Rightarrow> u64 \<Rightarrow> aio_ring option"
  aio_alloc :: "u32 option"

datatype 'a outcome = Panic fault | Errno errno | Done 'a

definition io_setup :: "setup_env \<Rightarrow> u32 \<Rightarrow> aio outcome" where
  "io_setup env nr_events =
     (if \<not> ctx_idp_writable env then Errno EFAULT
      else if nr_events = 0 then Errno EINVAL
      else
        (let nr_events' = nr_events + 1;
             alloc_size = aio_alloc_size nr_events'
         in (case phys_alloc env alloc_size of
               None \<Rightarrow> Errno ENOMEM
             | Some phys \<Rightarrow>
                 (case map_physical env phys alloc_size of
                    None \<Rightarrow> Errno ENOMEM
                  | Some ctx \<Rightarrow>
                      (case aio_alloc env of
                         None \<Rightarrow> Panic AssertFail
                       | Some i \<Rightarrow>
                           Done \<lparr> ring = ctx \<lparr> ring_id := i, nr := nr_events', head := 0, tail := 0,
                                                magic := AIO_RING_MAGIC, compat_features := 1,
                                                incompat_features := 0,
                                                header_length := ucast sizeof_aio_ring \<rparr>,
                                  bq = False, aio_nr = nr_events', ongoing_ops = 0,
                                  copied_evts = 0, refcount = 1 \<rparr>)))))"

subsection \<open>aio_complete\<close>

text \<open>
  \<open>aio_complete\<close>: what it does to the context. Under the lock (lines 146 to
  162) it counts the operation off, clamps and advances \<open>tail\<close> and fills the
  slot; at the end it drops the reference the enqueue took. The bound \<open>data\<close>
  and \<open>obj\<close> and the result \<open>rv\<close> are arguments. A store to \<open>events[tail]\<close> is
  a list update; the slot exists whenever \<open>tail < length (events ring)\<close>, which
  the allocation of \<open>io_setup\<close> gives for every \<open>tail < aio_nr\<close>. The write to
  an eventfd and the wake-up of a waiter are outside the context.
\<close>

definition aio_complete :: "aio \<Rightarrow> u64 \<Rightarrow> u64 \<Rightarrow> u64 \<Rightarrow> aio" where
  "aio_complete a d ob rv =
     (let r = ring a;
          ops = ongoing_ops a - 1;
          t0 = tail r;
          t1 = (if t0 \<ge> aio_nr a then 0 else t0);
          ev = (events r ! unat t1) \<lparr> data := d, obj := ob, res := rv \<rparr>;
          evs = (events r) [unat t1 := ev];
          t2 = t1 + 1;
          t3 = (if t2 = aio_nr a then 0 else t2)
      in a \<lparr> ring := r \<lparr> events := evs, tail := t3 \<rparr>, ongoing_ops := ops,
             refcount := refcount a - 1 \<rparr>)"

subsection \<open>Admission and iocb_enqueue\<close>

text \<open>
  \<open>aio_avail_events\<close>: \<open>int avail = head - tail\<close> is the unsigned difference
  read as a signed 32-bit value; \<open>avail += aio->nr\<close> and the conversion of the
  result to \<open>unsigned int\<close> are arithmetic modulo \<open>2^32\<close>.
\<close>

definition aio_avail_events :: "aio \<Rightarrow> u32" where
  "aio_avail_events a =
     (let avail = head (ring a) - tail (ring a)
      in if sint avail \<le> 0 then avail + aio_nr a else avail)"

text \<open>
  \<open>struct iocb\<close>, \<open>IOCB_FLAG_RESFD\<close>, \<open>IOCB_CMD_PREAD\<close> and \<open>IOCB_CMD_PWRITE\<close>
  are declared outside the sources; they are the Linux AIO ABI's.
\<close>

record iocb =
  aio_data :: u64
  aio_reserved1 :: u32
  aio_lio_opcode :: u16
  aio_fildes :: u32
  aio_buf :: u64
  aio_nbytes :: u64
  aio_offset :: u64
  aio_reserved2 :: u64
  aio_flags :: u32
  aio_resfd :: u32

definition IOCB_FLAG_RESFD :: u32 where "IOCB_FLAG_RESFD = 1"
definition AIO_KNOWN_FLAGS :: u32 where "AIO_KNOWN_FLAGS = IOCB_FLAG_RESFD"
definition IOCB_CMD_PREAD :: u16 where "IOCB_CMD_PREAD = 0"
definition IOCB_CMD_PWRITE :: u16 where "IOCB_CMD_PWRITE = 1"

text \<open>
  A file descriptor as \<open>iocb_enqueue\<close> sees it: whether \<open>f->read\<close> and
  \<open>f->write\<close> are set and what \<open>fdesc_is_readable\<close> and \<open>fdesc_is_writable\<close>
  answer.
\<close>

record fdesc =
  has_read :: bool
  has_write :: bool
  is_readable :: bool
  is_writable :: bool

text \<open>
  What the rest of the kernel answers during one \<open>iocb_enqueue\<close>:
  \<open>validate_user_memory(iocb, ...)\<close>; whether reading the IOCB faults
  (\<open>context_set_err\<close> at line 202 returning true); the descriptor table behind
  \<open>fdesc_get\<close>; whether a user access faults during dispatch (\<open>context_set_err\<close>
  at line 234); whether \<open>get_process_context\<close> and \<open>closure\<close> allocate.
\<close>

record enq_env =
  iocb_mem_ok :: bool
  iocb_fault :: bool
  fds :: "u32 \<Rightarrow> fdesc option"
  dispatch_fault :: bool
  pc_alloc_ok :: bool
  closure_alloc_ok :: bool

text \<open>
  The section of \<open>iocb_enqueue\<close> under \<open>aio_lock\<close> (lines 222 to 229):
  \<open>None\<close> is the \<open>-EAGAIN\<close> exit, \<open>Some a'\<close> the context when the lock is
  released after \<open>ongoing_ops++\<close>.
\<close>

definition iocb_enqueue_locked :: "aio \<Rightarrow> aio option" where
  "iocb_enqueue_locked a =
     (if ongoing_ops a \<ge> aio_avail_events a - 1 then None
      else Some (a \<lparr> ongoing_ops := ongoing_ops a + 1 \<rparr>))"

text \<open>
  Lines 234 to 275: \<open>Some e\<close> is \<open>rv = -e; goto error\<close>, \<open>None\<close> is the dispatch
  to \<open>f->read\<close> or \<open>f->write\<close>, whose completion arrives later.
\<close>

definition iocb_dispatch :: "iocb \<Rightarrow> fdesc \<Rightarrow> enq_env \<Rightarrow> errno option" where
  "iocb_dispatch cb f env =
     (if dispatch_fault env then Some EFAULT
      else if \<not> pc_alloc_ok env then Some ENOMEM
      else if \<not> closure_alloc_ok env then Some ENOMEM
      else if aio_lio_opcode cb = IOCB_CMD_PREAD then
        (if \<not> has_read f then Some EINVAL
         else if \<not> is_readable f then Some EBADF
         else None)
      else if aio_lio_opcode cb = IOCB_CMD_PWRITE then
        (if \<not> has_write f then Some EINVAL
         else if \<not> is_writable f then Some EBADF
         else None)
      else Some EINVAL)"

text \<open>
  Lines 202 to 215: the checks before the context lock is taken. \<open>Inl e\<close> is
  the early \<open>return -e\<close>, \<open>Inr f\<close> the descriptor found.
\<close>

definition iocb_check :: "iocb \<Rightarrow> enq_env \<Rightarrow> errno + fdesc" where
  "iocb_check cb env =
     (if \<not> iocb_mem_ok env \<or> iocb_fault env then Inl EFAULT
      else if aio_reserved1 cb \<noteq> 0 \<or> aio_reserved2 cb \<noteq> 0 \<or> aio_buf cb = 0 \<or>
              aio_flags cb AND NOT AIO_KNOWN_FLAGS \<noteq> 0 then Inl EINVAL
      else (case fds env (aio_fildes cb) of
              None \<Rightarrow> Inl EBADF
            | Some f \<Rightarrow> Inr f))"

text \<open>
  \<open>iocb_enqueue\<close>: the result and the context afterwards. After the locked
  section come \<open>refcount_reserve\<close> and the dispatch; the \<open>error\<close> label undoes
  both the reservation and \<open>ongoing_ops++\<close>.
\<close>

definition iocb_enqueue :: "aio \<Rightarrow> iocb \<Rightarrow> enq_env \<Rightarrow> sysreturn \<times> aio" where
  "iocb_enqueue a cb env =
     (case iocb_check cb env of
        Inl e \<Rightarrow> (Inl e, a)
      | Inr f \<Rightarrow>
          (case iocb_enqueue_locked a of
             None \<Rightarrow> (Inl EAGAIN, a)
           | Some a1 \<Rightarrow>
               (let a2 = a1 \<lparr> refcount := refcount a1 + 1 \<rparr>
                in (case iocb_dispatch cb f env of
                      None \<Rightarrow> (Inr 0, a2)
                    | Some e \<Rightarrow>
                        (Inl e, a2 \<lparr> ongoing_ops := ongoing_ops a2 - 1,
                                     refcount := refcount a2 - 1 \<rparr>)))))"

subsection \<open>io_submit\<close>





text \<open>
  The process's table of AIO contexts (\<open>p->aio\<close>); \<open>vector_get\<close> gives 0, here
  \<open>None\<close>, for an id with no context. A \<open>struct aio *\<close> is the context it points
  to, the null pointer is \<open>None\<close>.
\<close>

record process =
  aios :: "u32 \<Rightarrow> aio option"

text \<open>
  \<open>aio_from_ring_id\<close>: \<open>refcount_reserve(&aio->refcount)\<close> follows \<open>vector_get\<close>
  with no test of the pointer, so for an id with no context it is a store
  through a null pointer.
\<close>

definition aio_from_ring_id :: "process \<Rightarrow> u32 \<Rightarrow> fault + (aio option \<times> process)" where
  "aio_from_ring_id p i =
     (case aios p i of
        None \<Rightarrow> Inl NullDeref
      | Some a \<Rightarrow>
          (let a' = a \<lparr> refcount := refcount a + 1 \<rparr>
           in Inr (Some a', p \<lparr> aios := (aios p) (i \<mapsto> a') \<rparr>)))"



subsection \<open>io_getevents\<close>

text \<open>
  \<open>io_getevents\<close> up to the call of \<open>blockq_check_timeout\<close>: it returns an
  errno, or takes the context lock, resets \<open>copied_evts\<close>, attaches the thread's
  blockq and enters the wait (\<open>Done p'\<close>). \<open>mem_ok\<close> is the outcome of the
  \<open>validate_user_memory\<close> calls and of reading \<open>ctx_id->id\<close> without a fault.
\<close>

definition io_getevents :: "process \<Rightarrow> bool \<Rightarrow> u32 \<Rightarrow> int \<Rightarrow> int \<Rightarrow> process outcome" where
  "io_getevents p mem_ok i min_nr n =
     (if \<not> mem_ok then Errno EFAULT
      else (case aio_from_ring_id p i of
              Inl f \<Rightarrow> Panic f
            | Inr (ao, p') \<Rightarrow>
                (if n \<le> 0 \<or> n < min_nr \<or> ao = None then Errno EINVAL
                 else (case ao of
                         None \<Rightarrow> Errno EINVAL
                       | Some a \<Rightarrow>
                           Done (p' \<lparr> aios := (aios p') (i \<mapsto> a \<lparr> copied_evts := 0, bq := True \<rparr>) \<rparr>)))))"

text \<open>
  \<open>io_getevents_bh\<close>, the blockq action. Its bound arguments: \<open>events\<close> is the
  user's pointer, checked by \<open>validate_user_memory\<close> only. It is 0 (\<open>EvNull\<close>)
  as in the drain of \<open>io_destroy\<close>; or a buffer that shares no byte with the
  ring (\<open>EvUser buf\<close>, the list of the slots that can be written; a copy to a
  slot past its end faults); or, the ring being mapped writable in the
  process, the address of slot \<open>k\<close> of this ring's own event area (\<open>EvRing k\<close>):
  then \<open>events[i]\<close> is \<open>ring->events[k + i]\<close>, and a copy past the mapped slots
  faults. Other buffers that overlap the ring (one that starts inside a slot
  or in the header, or runs into the ring from outside) are not represented.
  \<open>timeout\<close> is a \<open>timestamp\<close>, either \<open>infinity\<close> or a number of ticks. The
  \<open>flags\<close> are the three \<open>BLOCKQ_ACTION\<close> bits it tests.
\<close>

datatype timestamp = Infinity | Ticks u64

datatype events_ptr = EvNull | EvUser "io_event list" | EvRing nat


record bh_args =
  bh_min_nr :: int
  bh_nr :: int
  bh_events :: events_ptr
  bh_timeout :: timestamp

record bh_flags =
  blocked :: bool
  nullify :: bool
  timedout :: bool

datatype bh_result = BlockRequired | Completed sysreturn

text \<open>
  \<open>if (events) runtime_memcpy(&events[c], &ring->events[h], sizeof(struct io_event))\<close>
  on the ring's slots \<open>revs\<close> and the user's buffer: the whole slot is copied,
  \<open>res2\<close> included. \<open>None\<close> is a fault.
\<close>

definition copy_event ::
  "io_event list \<Rightarrow> nat \<Rightarrow> events_ptr \<Rightarrow> nat \<Rightarrow> (io_event list \<times> events_ptr) option" where
  "copy_event revs h out c =
     (case out of
        EvNull \<Rightarrow> Some (revs, EvNull)
      | EvUser buf \<Rightarrow>
          if c < length buf then Some (revs, EvUser (buf [c := revs ! h])) else None
      | EvRing k \<Rightarrow>
          if k + c < length revs then Some (revs [k + c := revs ! h], EvRing k) else None)"

text \<open>
  The copy loop (lines 358 to 369) on \<open>head\<close>, \<open>copied_evts\<close>, \<open>ring->events\<close> and \<open>events\<close>;
  the first component of the result says whether a copy faulted. \<open>None\<close> is a
  loop that does not end.
\<close>

partial_function (option) getevents_copy ::
  "u32 \<Rightarrow> u32 \<Rightarrow> int \<Rightarrow> u32 \<Rightarrow> u32 \<Rightarrow> io_event list \<Rightarrow> events_ptr
     \<Rightarrow> (bool \<times> u32 \<times> u32 \<times> io_event list \<times> events_ptr) option" where
  "getevents_copy n t lim h c revs out =
     (if h \<noteq> t then
        (case copy_event revs (unat h) out (unat c) of
           None \<Rightarrow> Some (True, h, c, revs, out)
         | Some (revs', out') \<Rightarrow>
             (let h1 = h + 1;
                  h2 = (if h1 = n then 0 else h1);
                  c1 = c + 1
              in if uint c1 = lim then Some (False, h2, c1, revs', out')
                 else getevents_copy n t lim h2 c1 revs' out'))
      else Some (False, h, c, revs, out))"

text \<open>The label \<open>out\<close>: detach the blockq, apply the completion, drop the reference.\<close>

definition getevents_out :: "aio \<Rightarrow> sysreturn \<Rightarrow> bh_result \<times> aio" where
  "getevents_out a rv = (Completed rv, a \<lparr> bq := False, refcount := refcount a - 1 \<rparr>)"

text \<open>
  The result is what the action returns, the context, and the user's buffer.
  Slots of the ring written by the copy loop stay written when a later copy
  faults.
\<close>

definition io_getevents_bh ::
  "aio \<Rightarrow> bh_args \<Rightarrow> bh_flags \<Rightarrow> ((bh_result \<times> aio) \<times> events_ptr) option" where
  "io_getevents_bh a args fl =
     (if nullify fl then
        Some (getevents_out a (if bh_timeout args = Infinity then Inl ERESTARTSYS else Inl EINTR),
              bh_events args)
      else
        (let r = ring a;
             head0 = (if head r \<ge> aio_nr a then 0 else head r);
             tail0 = (if tail r \<ge> aio_nr a then 0 else tail r)
         in (case getevents_copy (aio_nr a) tail0 (bh_nr args)
                    head0 (copied_evts a) (events r) (bh_events args) of
               None \<Rightarrow> None
             | Some (faulted, h, c, revs, out) \<Rightarrow>
                 if faulted
                 then Some (getevents_out (a \<lparr> copied_evts := c, ring := r \<lparr> events := revs \<rparr> \<rparr>)
                              (Inl EFAULT), out)
                 else
                   (let a1 = a \<lparr> copied_evts := c,
                                 ring := r \<lparr> events := revs, head := h, tail := tail0 \<rparr> \<rparr>
                    in if uint c < bh_min_nr args \<and> bh_timeout args \<noteq> Ticks 0 \<and> \<not> timedout fl
                       then Some ((BlockRequired, a1), out)
                       else Some (getevents_out a1 (Inr (uint c)), out)))))"

subsection \<open>The kernel's operations on one context\<close>

text \<open>
  Between \<open>io_setup\<close> and \<open>aio_free\<close> the kernel touches a context through
  \<open>iocb_enqueue\<close>, \<open>aio_complete\<close>, the entry of \<open>io_getevents\<close> (\<open>OpEnter\<close>:
  the reference \<open>aio_from_ring_id\<close> takes, \<open>copied_evts = 0\<close> and the blockq
  attached) and \<open>io_getevents_bh\<close> (entered from \<open>io_getevents\<close> and from
  \<open>io_destroy\<close>). \<open>kernel_run\<close> applies a sequence of them; it is \<open>None\<close> when
  a copy loop does not end. The transfers that the enqueued operations make
  to their own buffers are the descriptor's \<open>read\<close> and \<open>write\<close>, outside this
  file.
\<close>

datatype kernel_op =
    OpEnqueue iocb enq_env
  | OpComplete u64 u64 u64
  | OpEnter
  | OpGetevents bh_args bh_flags

definition kernel_step :: "aio \<Rightarrow> kernel_op \<Rightarrow> aio option" where
  "kernel_step a op =
     (case op of
        OpEnqueue cb env \<Rightarrow> Some (snd (iocb_enqueue a cb env))
      | OpComplete d ob rv \<Rightarrow> Some (aio_complete a d ob rv)
      | OpEnter \<Rightarrow> Some (a \<lparr> refcount := refcount a + 1, copied_evts := 0, bq := True \<rparr>)
      | OpGetevents args fl \<Rightarrow> map_option (\<lambda>res. snd (fst res)) (io_getevents_bh a args fl))"

fun kernel_run :: "aio \<Rightarrow> kernel_op list \<Rightarrow> aio option" where
  "kernel_run a [] = Some a"
| "kernel_run a (op # ops) =
     (case kernel_step a op of None \<Rightarrow> None | Some a' \<Rightarrow> kernel_run a' ops)"


subsection \<open>The admission rule as the specification words it\<close>

text \<open>
  \<open>available_slots = ((head - tail) mod nr) or nr if zero\<close>, over the integers,
  with the kernel's slot count \<open>aio->nr\<close>.
\<close>

definition available_slots :: "aio \<Rightarrow> int" where
  "available_slots a =
     (let d = (uint (head (ring a)) - uint (tail (ring a))) mod uint (aio_nr a)
      in if d = 0 then uint (aio_nr a) else d)"

subsection \<open>The attempts of one io_submit call, one by one\<close>



section \<open>Virtio-net receive checksum (src/virtio/virtio_net.c)\<close>

text \<open>
  A buffer is the list of its bytes; an unaligned little-endian load of \<open>k\<close>
  bytes reads the first \<open>k\<close> of them, least significant first.
\<close>

fun le_nat :: "u8 list \<Rightarrow> nat" where
  "le_nat [] = 0"
| "le_nat (b # bs) = unat b + 256 * le_nat bs"

definition load64 :: "u8 list \<Rightarrow> u64" where
  "load64 buf = of_nat (le_nat (take 8 buf))"

definition load32 :: "u8 list \<Rightarrow> u32" where
  "load32 buf = of_nat (le_nat (take 4 buf))"

definition load16 :: "u8 list \<Rightarrow> u16" where
  "load16 buf = of_nat (le_nat (take 2 buf))"

text \<open>\<open>sum += s; if (sum < s) sum++;\<close> on the 64-bit accumulator.\<close>

definition csum_add :: "u64 \<Rightarrow> u64 \<Rightarrow> u64" where
  "csum_add acc s = (let acc' = acc + s in if acc' < s then acc' + 1 else acc')"

text \<open>The \<open>while (len >= sizeof(u64))\<close> loop: the accumulator \<open>sum\<close> (here \<open>acc\<close>) and the rest of the buffer.\<close>

function csum_words :: "u64 \<Rightarrow> u8 list \<Rightarrow> u64 \<times> u8 list" where
  "csum_words acc buf =
     (if length buf \<ge> 8 then csum_words (csum_add acc (load64 buf)) (drop 8 buf)
      else (acc, buf))"
  by pat_completeness auto
termination
  by (relation "measure (\<lambda>(acc, buf). length buf)") auto

declare csum_words.simps [simp del]

text \<open>The trailing \<open>u32\<close>, \<open>u16\<close> and byte (lines 153 to 174).\<close>

definition csum_tail :: "u64 \<Rightarrow> u8 list \<Rightarrow> u64" where
  "csum_tail acc buf =
     (let (acc1, buf1) = (if length buf \<ge> 4 then (csum_add acc (ucast (load32 buf)), drop 4 buf)
                          else (acc, buf));
          (acc2, buf2) = (if length buf1 \<ge> 2 then (csum_add acc1 (ucast (load16 buf1)), drop 2 buf1)
                          else (acc1, buf1))
      in if length buf2 \<noteq> 0 then csum_add acc2 (ucast (hd buf2)) else acc2)"

text \<open>Fold down to 16 bits (lines 177 to 186).\<close>

definition csum_fold :: "u64 \<Rightarrow> u16" where
  "csum_fold acc =
     (let s1 = (ucast acc :: u32);
          s2 = (ucast (drop_bit 32 acc) :: u32);
          s1' = s1 + s2;
          s1'' = (if s1' < s2 then s1' + 1 else s1');
          s3 = (ucast s1'' :: u16);
          s4 = (ucast (drop_bit 16 s1'') :: u16);
          s3' = s3 + s4
      in if s3' < s4 then s3' + 1 else s3')"

text \<open>\<open>vnet_csum(buf, len)\<close>: \<open>buf\<close> is the list of the \<open>len\<close> bytes at \<open>buf\<close>.\<close>

definition vnet_csum :: "u8 list \<Rightarrow> u16" where
  "vnet_csum buf = (case csum_words 0 buf of (acc, rest) \<Rightarrow> NOT (csum_fold (csum_tail acc rest)))"

text \<open>
  \<open>struct virtio_net_hdr\<close> and \<open>VIRTIO_NET_HDR_F_NEEDS_CSUM\<close> are declared in
  \<open>virtio_net.h\<close>, outside the sources; they are the virtio specification's.
\<close>

record virtio_net_hdr =
  flags :: u8
  gso_type :: u8
  hdr_len :: u16
  gso_size :: u16
  csum_start :: u16
  csum_offset :: u16

definition VIRTIO_NET_HDR_F_NEEDS_CSUM :: u8 where "VIRTIO_NET_HDR_F_NEEDS_CSUM = 1"

text \<open>
  A receive buffer when the device completes it: the header the device wrote,
  the bytes of the buffer after the header (all of them, up to the end of the
  allocation), and \<open>pbuf.len\<close> as \<open>post_receive\<close> set it.
\<close>

record xpbuf =
  hdr :: virtio_net_hdr
  payload :: "u8 list"
  pbuf_len :: u16

text \<open>
  What \<open>input\<close> does with the buffer: a failed \<open>assert\<close> or an access outside
  the buffer (\<open>RxFault\<close>); the payload handed to the network stack
  (\<open>RxStack ok bytes\<close>, \<open>bytes\<close> being the \<open>len\<close> bytes at \<open>pbuf.payload\<close> and
  \<open>ok\<close> whether the stack returned \<open>ERR_OK\<close>; when it did not the buffer goes
  back to the pool); or the buffer released without the stack seeing it
  (\<open>RxDropped\<close>).
\<close>

datatype rx_result = RxFault fault | RxStack bool "u8 list" | RxDropped

text \<open>
  The store \<open>*(u16 *)(payload + off) = csum\<close>, little-endian; \<open>None\<close> when the
  two bytes are not inside the buffer.
\<close>

definition store16 :: "u8 list \<Rightarrow> nat \<Rightarrow> u16 \<Rightarrow> u8 list option" where
  "store16 buf off v =
     (if off + 2 \<le> length buf
      then Some (buf [off := ucast v, off + 1 := ucast (drop_bit 8 v)])
      else None)"

text \<open>
  The completion \<open>input\<close> for a non-null \<open>x\<close>: \<open>net_header_len\<close> is the
  device's, \<open>len\<close> the length the device wrote, \<open>stack_ok\<close> whether
  \<open>vn->n->input\<close> returns \<open>ERR_OK\<close>. The comparison at line 207 is between
  \<open>csum_start + csum_offset\<close> (an \<open>int\<close>, converted to 64 bits) and the unsigned
  64-bit \<open>len - sizeof(u16)\<close>.
\<close>

definition input :: "u64 \<Rightarrow> xpbuf \<Rightarrow> u64 \<Rightarrow> bool \<Rightarrow> rx_result" where
  "input net_header_len x len0 stack_ok =
     (let len = len0 - net_header_len;
          h = hdr x
      in if \<not> len \<le> ucast (pbuf_len x) then RxFault AssertFail
         else if flags h AND VIRTIO_NET_HDR_F_NEEDS_CSUM \<noteq> 0 then
           (if (ucast (csum_start h) + ucast (csum_offset h) :: u64) \<le> len - 2 then
              (let n = len - ucast (csum_start h);
                   start = unat (csum_start h)
               in if start + unat n \<le> length (payload x) then
                    (case store16 (payload x) (start + unat (csum_offset h))
                            (vnet_csum (take (unat n) (drop start (payload x)))) of
                       None \<Rightarrow> RxFault MemFault
                     | Some buf \<Rightarrow> RxStack stack_ok (take (unat len) buf))
                  else RxFault MemFault)
            else RxDropped)
         else RxStack stack_ok (take (unat len) (payload x)))"

subsection \<open>The one's-complement sum as the specification words it\<close>

text \<open>
  The end-around-carry fold of a number to \<open>w\<close> bits: as long as it does not
  fit, the bits above the low \<open>w\<close> are added to the low \<open>w\<close>.
\<close>

function eac_fold :: "nat \<Rightarrow> nat \<Rightarrow> nat" where
  "eac_fold w n = (if w = 0 \<or> n < 2 ^ w then n else eac_fold w (n mod 2 ^ w + n div 2 ^ w))"
  by pat_completeness auto
termination
proof (relation "measure (\<lambda>(w, n). n)")
  show "wf (measure (\<lambda>(w, n). n))" by simp
next
  fix w n :: nat
  assume a: "\<not> (w = 0 \<or> n < 2 ^ w)"
  then have w: "(2::nat) \<le> 2 ^ w" by (cases w) auto
  from a have "1 \<le> n div 2 ^ w" by (simp add: div_greater_zero_iff Suc_leI)
  then have "n div 2 ^ w < 2 ^ w * (n div 2 ^ w)" using w by simp
  moreover have "n = 2 ^ w * (n div 2 ^ w) + n mod 2 ^ w" by simp
  ultimately have "n mod 2 ^ w + n div 2 ^ w < n" by linarith
  then show "((w, n mod 2 ^ w + n div 2 ^ w), (w, n)) \<in> measure (\<lambda>(w, n). n)" by simp
qed

declare eac_fold.simps [simp del]

text \<open>
  The bytes of a buffer as 16-bit little-endian words, added up as natural
  numbers; a last odd byte counts as the low byte of a word.
\<close>

fun sum16 :: "u8 list \<Rightarrow> nat" where
  "sum16 [] = 0"
| "sum16 [b] = unat b"
| "sum16 (b0 # b1 # bs) = unat b0 + 256 * unat b1 + sum16 bs"

definition ones_complement_sum :: "u8 list \<Rightarrow> u16" where
  "ones_complement_sum buf = of_nat (eac_fold 16 (sum16 buf))"

text \<open>
  The fold in closed form, for the proofs: 0 for 0, and otherwise the number in
  \<open>1 .. M\<close> congruent to \<open>n\<close> modulo \<open>M = 2^w - 1\<close>.
\<close>

definition eac_norm :: "nat \<Rightarrow> nat \<Rightarrow> nat" where
  "eac_norm M n = (if n = 0 then 0 else (n - 1) mod M + 1)"

section \<open>Concrete inputs\<close>

text \<open>
  A zeroed event slot, a freshly mapped page of zeroes and one holding old
  data, and kernels whose allocations succeed or fail.
\<close>

definition zero_event :: io_event where
  "zero_event = \<lparr> data = 0, obj = 0, res = 0, res2 = 0 \<rparr>"

definition ring0 :: aio_ring where
  "ring0 = \<lparr> ring_id = 0, nr = 0, head = 0, tail = 0, magic = 0, compat_features = 0,
             incompat_features = 0, header_length = 0, events = replicate 127 zero_event \<rparr>"

definition ring_dirty :: aio_ring where
  "ring_dirty = ring0 \<lparr> events := replicate 127 \<lparr> data = 1, obj = 2, res = 3, res2 = 4 \<rparr> \<rparr>"

definition env_ok :: setup_env where
  "env_ok = \<lparr> ctx_idp_writable = True, phys_alloc = (\<lambda>sz. Some 0x100000),
              map_physical = (\<lambda>phys sz. Some ring0), aio_alloc = Some 0 \<rparr>"

definition env_dirty :: setup_env where
  "env_dirty = env_ok \<lparr> map_physical := (\<lambda>phys sz. Some ring_dirty) \<rparr>"

text \<open>
  The contexts \<open>io_setup\<close> makes from the page holding old data for
  \<open>nr_events = 1\<close>, and from the page of zeroes for \<open>nr_events = 2^32 - 1\<close>.
\<close>

definition aio_dirty :: aio where
  "aio_dirty = \<lparr> ring = ring_dirty \<lparr> nr := 2, magic := AIO_RING_MAGIC, compat_features := 1,
                                       header_length := 32 \<rparr>,
                 bq = False, aio_nr = 2, ongoing_ops = 0, copied_evts = 0, refcount = 1 \<rparr>"

definition aio_wrapped :: aio where
  "aio_wrapped = \<lparr> ring = ring0 \<lparr> magic := AIO_RING_MAGIC, compat_features := 1,
                                    header_length := 32 \<rparr>,
                   bq = False, aio_nr = 0, ongoing_ops = 0, copied_evts = 0, refcount = 1 \<rparr>"

definition env_nomem :: setup_env where
  "env_nomem = env_ok \<lparr> phys_alloc := (\<lambda>sz. None) \<rparr>"

definition aio_corrupt :: aio where
  "aio_corrupt = \<lparr> ring = ring0 \<lparr> nr := 4, tail := 77 \<rparr>, bq = False, aio_nr = 4,
                   ongoing_ops = 1, copied_evts = 0, refcount = 2 \<rparr>"

definition fd_rw :: fdesc where
  "fd_rw = \<lparr> has_read = True, has_write = True, is_readable = True, is_writable = True \<rparr>"

definition iocb_pread :: iocb where
  "iocb_pread = \<lparr> aio_data = 7, aio_reserved1 = 0, aio_lio_opcode = IOCB_CMD_PREAD,
                  aio_fildes = 3, aio_buf = 0x1000, aio_nbytes = 16, aio_offset = 0,
                  aio_reserved2 = 0, aio_flags = 0, aio_resfd = 0 \<rparr>"

definition enq_ok :: enq_env where
  "enq_ok = \<lparr> iocb_mem_ok = True, iocb_fault = False,
              fds = (\<lambda>fd. if fd = 3 then Some fd_rw else None),
              dispatch_fault = False, pc_alloc_ok = True, closure_alloc_ok = True \<rparr>"










definition aio_busy :: "u32 \<Rightarrow> aio" where
  "aio_busy ops = \<lparr> ring = ring0 \<lparr> nr := 4 \<rparr>, bq = False, aio_nr = 4, ongoing_ops = ops,
                    copied_evts = 0, refcount = 1 \<rparr>"

definition aio_head7 :: aio where
  "aio_head7 = \<lparr> ring = ring0 \<lparr> nr := 2, head := 7 \<rparr>, bq = False, aio_nr = 2,
                 ongoing_ops = 0, copied_evts = 0, refcount = 1 \<rparr>"








definition frame60 :: xpbuf where
  "frame60 = \<lparr> hdr = \<lparr> flags = 1, gso_type = 0, hdr_len = 0, gso_size = 0,
                        csum_start = 14, csum_offset = 16 \<rparr>,
               payload = [0, 0, 0, 0, 0, 0, 0, 0, 0, 0, 0, 0, 0, 0,
                          0x45, 0x00, 0x00, 0x73, 0x00, 0x00, 0x40, 0x00, 0x40, 0x11,
                          0x00, 0x00, 0xc0, 0xa8, 0x00, 0x01, 0xc0, 0xa8, 0x00, 0xc7,
                          0, 0, 0, 0, 0, 0, 0, 0, 0, 0, 0, 0, 0,
                          0, 0, 0, 0, 0, 0, 0, 0, 0, 0, 0, 0, 0],
               pbuf_len = 1536 \<rparr>"

text \<open>The 60 bytes of that frame as \<open>input\<close> hands them to the stack.\<close>

definition frame60_out :: "u8 list" where
  "frame60_out = [0, 0, 0, 0, 0, 0, 0, 0, 0, 0, 0, 0, 0, 0,
                  0x45, 0x00, 0x00, 0x73, 0x00, 0x00, 0x40, 0x00, 0x40, 0x11,
                  0x00, 0x00, 0xc0, 0xa8, 0x00, 0x01, 0xb8, 0x61, 0x00, 0xc7,
                  0, 0, 0, 0, 0, 0, 0, 0, 0, 0, 0, 0, 0,
                  0, 0, 0, 0, 0, 0, 0, 0, 0, 0, 0, 0, 0]"

section \<open>io_setup: the ring it leaves\<close>

lemma aio_alloc_size_wrap: "aio_alloc_size 0 = 4096"
  by (simp add: aio_alloc_size_def pad_def sizeof_aio_ring_def sizeof_io_event_def PAGESIZE_def)

lemma io_setup_Done:
  assumes "io_setup env nr_events = Done a"
  shows "\<exists>phys ctx i. ctx_idp_writable env \<and> nr_events \<noteq> 0 \<and>
           phys_alloc env (aio_alloc_size (nr_events + 1)) = Some phys \<and>
           map_physical env phys (aio_alloc_size (nr_events + 1)) = Some ctx \<and>
           aio_alloc env = Some i \<and>
           a = \<lparr> ring = ctx \<lparr> ring_id := i, nr := nr_events + 1, head := 0, tail := 0,
                               magic := AIO_RING_MAGIC, compat_features := 1,
                               incompat_features := 0, header_length := 32 \<rparr>,
                 bq = False, aio_nr = nr_events + 1, ongoing_ops = 0,
                 copied_evts = 0, refcount = 1 \<rparr>"
  using assms
  by (auto simp: io_setup_def Let_def sizeof_aio_ring_def split: if_splits option.splits)

lemma io_setup_success:
  assumes "ctx_idp_writable env" "nr_events \<noteq> 0"
    "phys_alloc env (aio_alloc_size (nr_events + 1)) = Some phys"
    "map_physical env phys (aio_alloc_size (nr_events + 1)) = Some ctx"
    "aio_alloc env = Some i"
  shows "io_setup env nr_events =
           Done \<lparr> ring = ctx \<lparr> ring_id := i, nr := nr_events + 1, head := 0, tail := 0,
                               magic := AIO_RING_MAGIC, compat_features := 1,
                               incompat_features := 0, header_length := 32 \<rparr>,
                 bq = False, aio_nr = nr_events + 1, ongoing_ops = 0,
                 copied_evts = 0, refcount = 1 \<rparr>"
  using assms by (simp add: io_setup_def Let_def sizeof_aio_ring_def)

text \<open>
  C9. \<open>io_setup\<close> adds one to \<open>nr_events\<close> in 32-bit unsigned arithmetic and
  checks nothing afterwards: whenever it produces a ring, the ring's \<open>nr\<close> (and
  the kernel's copy) is \<open>(nr_events + 1) mod 2^32\<close>; and for
  \<open>nr_events = 2^32 - 1\<close> it asks for one page, and when that page is
  allocated and mapped it returns 0 with a ring whose \<open>nr\<close> is 0.
\<close>

theorem io_setup_slot_count_wraps:
  "(io_setup env nr_events = Done a \<longrightarrow>
      unat (nr (ring a)) = (unat nr_events + 1) mod 2 ^ 32 \<and> aio_nr a = nr (ring a)) \<and>
   (ctx_idp_writable env \<and> phys_alloc env 4096 = Some phys \<and>
    map_physical env phys 4096 = Some ctx \<and> aio_alloc env = Some i \<longrightarrow>
      (\<exists>a'. io_setup env 0xFFFFFFFF = Done a' \<and> nr (ring a') = 0 \<and> aio_nr a' = 0))"
proof (intro conjI impI)
  assume "io_setup env nr_events = Done a"
  from io_setup_Done[OF this] obtain ctx i where
    a: "a = \<lparr> ring = ctx \<lparr> ring_id := i, nr := nr_events + 1, head := 0, tail := 0,
                               magic := AIO_RING_MAGIC, compat_features := 1,
                               incompat_features := 0, header_length := 32 \<rparr>,
                 bq = False, aio_nr = nr_events + 1, ongoing_ops = 0,
                 copied_evts = 0, refcount = 1 \<rparr>" by blast
  show "unat (nr (ring a)) = (unat nr_events + 1) mod 2 ^ 32"
    by (simp add: a unat_word_ariths)
  show "aio_nr a = nr (ring a)" by (simp add: a)
next
  assume h: "ctx_idp_writable env \<and> phys_alloc env 4096 = Some phys \<and>
    map_physical env phys 4096 = Some ctx \<and> aio_alloc env = Some i"
  have e: "(0xFFFFFFFF :: u32) + 1 = 0" by simp
  have "io_setup env 0xFFFFFFFF =
          Done \<lparr> ring = ctx \<lparr> ring_id := i, nr := 0xFFFFFFFF + 1, head := 0, tail := 0,
                              magic := AIO_RING_MAGIC, compat_features := 1,
                              incompat_features := 0, header_length := 32 \<rparr>,
                 bq = False, aio_nr = 0xFFFFFFFF + 1, ongoing_ops = 0,
                 copied_evts = 0, refcount = 1 \<rparr>"
  proof (rule io_setup_success)
    show "ctx_idp_writable env" using h by simp
    show "(0xFFFFFFFF :: u32) \<noteq> 0" by simp
    show "phys_alloc env (aio_alloc_size (0xFFFFFFFF + 1)) = Some phys"
      unfolding e aio_alloc_size_wrap using h by simp
    show "map_physical env phys (aio_alloc_size (0xFFFFFFFF + 1)) = Some ctx"
      unfolding e aio_alloc_size_wrap using h by simp
    show "aio_alloc env = Some i" using h by simp
  qed
  then show "\<exists>a'. io_setup env 0xFFFFFFFF = Done a' \<and> nr (ring a') = 0 \<and> aio_nr a' = 0"
    unfolding e by simp
qed

theorem io_setup_slot_count_wraps_witness:
  "(\<exists>a. io_setup env_ok 5 = Done a \<and> unat (nr (ring a)) = 6 \<and> aio_nr a = nr (ring a)) \<and>
   ctx_idp_writable env_ok \<and> phys_alloc env_ok 4096 = Some 0x100000 \<and>
   map_physical env_ok 0x100000 4096 = Some ring0 \<and> aio_alloc env_ok = Some 0 \<and>
   (\<exists>a'. io_setup env_ok 0xFFFFFFFF = Done a' \<and> nr (ring a') = 0 \<and> aio_nr a' = 0)"
proof -
  obtain a where a: "io_setup env_ok 5 = Done a"
    by (simp add: io_setup_def env_ok_def Let_def)
  from io_setup_slot_count_wraps[of env_ok 5 a "0x100000" ring0 0] a
  show ?thesis by (simp add: env_ok_def)
qed

text \<open>
  C2, as amended. For every nonzero \<open>nr_events\<close> and writable \<open>ctx_idp\<close>:
  \<open>io_setup\<close> returns \<open>-ENOMEM\<close> when the physical allocation or the mapping
  fails; when both succeed (and \<open>aio_alloc\<close> gives a context) it returns 0 and
  leaves the ring with \<open>nr = nr_events + 1\<close> (as 32-bit values, and as numbers
  for \<open>nr_events < 2^32 - 1\<close>),
  \<open>head = tail = 0\<close>, \<open>magic = 0xA10A10A1\<close>, \<open>compat_features = 1\<close>,
  \<open>incompat_features = 0\<close>, \<open>header_length = 0x20\<close>, and the event area
  exactly as it was mapped: \<open>io_setup\<close> does not write it.
\<close>

theorem io_setup_ring:
  assumes "ctx_idp_writable env" and "nr_events \<noteq> 0"
  shows "(phys_alloc env (aio_alloc_size (nr_events + 1)) = None \<longrightarrow>
            io_setup env nr_events = Errno ENOMEM) \<and>
         (phys_alloc env (aio_alloc_size (nr_events + 1)) = Some phys \<and>
          map_physical env phys (aio_alloc_size (nr_events + 1)) = None \<longrightarrow>
            io_setup env nr_events = Errno ENOMEM) \<and>
         (phys_alloc env (aio_alloc_size (nr_events + 1)) = Some phys \<and>
          map_physical env phys (aio_alloc_size (nr_events + 1)) = Some ctx \<and>
          aio_alloc env = Some i \<longrightarrow>
            (\<exists>a. io_setup env nr_events = Done a \<and>
                 nr (ring a) = nr_events + 1 \<and>
                 (nr_events \<noteq> 0xFFFFFFFF \<longrightarrow> unat (nr (ring a)) = unat nr_events + 1) \<and>
                 head (ring a) = 0 \<and> tail (ring a) = 0 \<and> magic (ring a) = 0xA10A10A1 \<and>
                 compat_features (ring a) = 1 \<and> incompat_features (ring a) = 0 \<and>
                 header_length (ring a) = 0x20 \<and> events (ring a) = events ctx))"
proof (intro conjI impI)
  assume "phys_alloc env (aio_alloc_size (nr_events + 1)) = None"
  then show "io_setup env nr_events = Errno ENOMEM"
    using assms by (simp add: io_setup_def Let_def)
next
  assume "phys_alloc env (aio_alloc_size (nr_events + 1)) = Some phys \<and>
          map_physical env phys (aio_alloc_size (nr_events + 1)) = None"
  then show "io_setup env nr_events = Errno ENOMEM"
    using assms by (simp add: io_setup_def Let_def)
next
  assume h: "phys_alloc env (aio_alloc_size (nr_events + 1)) = Some phys \<and>
          map_physical env phys (aio_alloc_size (nr_events + 1)) = Some ctx \<and>
          aio_alloc env = Some i"
  have s: "io_setup env nr_events =
           Done \<lparr> ring = ctx \<lparr> ring_id := i, nr := nr_events + 1, head := 0, tail := 0,
                               magic := AIO_RING_MAGIC, compat_features := 1,
                               incompat_features := 0, header_length := 32 \<rparr>,
                 bq = False, aio_nr = nr_events + 1, ongoing_ops = 0,
                 copied_evts = 0, refcount = 1 \<rparr>"
    using assms h io_setup_success[of env nr_events phys ctx i] by blast
  have n: "unat (nr_events + 1) = unat nr_events + 1" if "nr_events \<noteq> 0xFFFFFFFF"
  proof -
    have "unat nr_events < 2 ^ 32" using unsigned_less[of nr_events] by simp
    moreover have "unat nr_events \<noteq> 4294967295"
      using that by (simp add: word_unat_eq_iff)
    ultimately have "unat nr_events + 1 < 2 ^ 32" by simp
    then show ?thesis by (simp add: unat_word_ariths)
  qed
  show "\<exists>a. io_setup env nr_events = Done a \<and>
                 nr (ring a) = nr_events + 1 \<and>
                 (nr_events \<noteq> 0xFFFFFFFF \<longrightarrow> unat (nr (ring a)) = unat nr_events + 1) \<and>
                 head (ring a) = 0 \<and> tail (ring a) = 0 \<and> magic (ring a) = 0xA10A10A1 \<and>
                 compat_features (ring a) = 1 \<and> incompat_features (ring a) = 0 \<and>
                 header_length (ring a) = 0x20 \<and> events (ring a) = events ctx"
    unfolding s using n by (simp add: AIO_RING_MAGIC_def)
qed

theorem io_setup_ring_witness:
  "ctx_idp_writable env_ok \<and> (5::u32) \<noteq> 0 \<and>
   phys_alloc env_ok (aio_alloc_size (5 + 1)) = Some 0x100000 \<and>
   map_physical env_ok 0x100000 (aio_alloc_size (5 + 1)) = Some ring0 \<and>
   aio_alloc env_ok = Some 0 \<and>
   (\<exists>a. io_setup env_ok 5 = Done a \<and> nr (ring a) = 6 \<and> unat (nr (ring a)) = 6 \<and>
        head (ring a) = 0 \<and> tail (ring a) = 0 \<and> magic (ring a) = 0xA10A10A1 \<and>
        compat_features (ring a) = 1 \<and> incompat_features (ring a) = 0 \<and>
        header_length (ring a) = 0x20 \<and> events (ring a) = events ring0) \<and>
   ctx_idp_writable env_nomem \<and> phys_alloc env_nomem (aio_alloc_size (5 + 1)) = None \<and>
   io_setup env_nomem 5 = Errno ENOMEM"
proof -
  have w: "ctx_idp_writable env_ok" "ctx_idp_writable env_nomem" "(5::u32) \<noteq> 0"
    by (simp_all add: env_ok_def env_nomem_def)
  from io_setup_ring[OF w(1) w(3), of "0x100000" ring0 0]
       io_setup_ring[OF w(2) w(3), of "0x100000" ring0 0]
  show ?thesis by (simp add: env_ok_def env_nomem_def)
qed

text \<open>
  The claim as stated fails: with a writable \<open>ctx_idp\<close> and \<open>nr_events = 1\<close>
  the call returns \<open>-ENOMEM\<close> when the physical heap has no memory, and when
  the mapped page holds old data the call returns 0 with an event slot that is
  not zero.
\<close>

theorem io_setup_counterexample:
  "ctx_idp_writable env_nomem \<and> (1::u32) \<noteq> 0 \<and> io_setup env_nomem 1 = Errno ENOMEM \<and>
   ctx_idp_writable env_dirty \<and> io_setup env_dirty 1 = Done aio_dirty \<and>
   events (ring aio_dirty) ! 0 = \<lparr> data = 1, obj = 2, res = 3, res2 = 4 \<rparr> \<and>
   events (ring aio_dirty) ! 0 \<noteq> zero_event"
  by (simp add: io_setup_def env_nomem_def env_dirty_def env_ok_def ring_dirty_def ring0_def
      zero_event_def Let_def aio_dirty_def sizeof_aio_ring_def)

section \<open>aio_complete: the slot written and the new tail\<close>

lemma aio_complete_events:
  "events (ring (aio_complete a d ob rv)) =
     (let t = (if tail (ring a) \<ge> aio_nr a then 0 else tail (ring a))
      in (events (ring a)) [unat t := (events (ring a) ! unat t) \<lparr> data := d, obj := ob, res := rv \<rparr>])"
  by (simp add: aio_complete_def Let_def)

lemma aio_complete_tail_val:
  "tail (ring (aio_complete a d ob rv)) =
     (let t = (if tail (ring a) \<ge> aio_nr a then 0 else tail (ring a))
      in if t + 1 = aio_nr a then 0 else t + 1)"
  by (simp add: aio_complete_def Let_def)

lemma ring_advance:
  fixes t n :: u32
  assumes "t < n"
  shows "unat (if t + 1 = n then 0 else t + 1) = (unat t + 1) mod unat n"
    and "(if t + 1 = n then 0 else t + 1) < n"
proof -
  have tn: "unat t < unat n" using assms by (simp add: word_less_nat_alt)
  have "unat n < 2 ^ 32" using unsigned_less[of n] by simp
  with tn have u: "unat (t + 1) = unat t + 1" by (simp add: unat_word_ariths)
  show "unat (if t + 1 = n then 0 else t + 1) = (unat t + 1) mod unat n"
  proof (cases "t + 1 = n")
    case True
    then have "unat t + 1 = unat n" using u by simp
    with True show ?thesis by simp
  next
    case False
    then have "unat t + 1 \<noteq> unat n" using u by (metis word_unat_eq_iff)
    with tn have "unat t + 1 < unat n" by simp
    with False u show ?thesis by simp
  qed
  show "(if t + 1 = n then 0 else t + 1) < n"
  proof (cases "t + 1 = n")
    case True
    with assms show ?thesis by (auto simp: word_less_nat_alt)
  next
    case False
    then have "unat t + 1 \<noteq> unat n" using u by (metis word_unat_eq_iff)
    with tn have "unat (t + 1) < unat n" using u by simp
    with False show ?thesis by (simp add: word_less_nat_alt)
  qed
qed

text \<open>
  C4, as amended. Under the context lock \<open>aio_complete\<close> takes one off
  \<open>ongoing_ops\<close>, reads \<open>ring->tail\<close> and replaces a value at or above the
  kernel's \<open>nr\<close> by 0, and stores \<open>data\<close>, \<open>obj\<close> and \<open>res = rv\<close> in
  \<open>events[tail]\<close>. For every context with a nonzero slot count it writes back
  \<open>(tail + 1) mod nr\<close>, and the new tail is below \<open>nr\<close> whatever \<open>ring->tail\<close>
  held before.
\<close>

theorem aio_complete_tail:
  "ongoing_ops (aio_complete a d ob rv) = ongoing_ops a - 1 \<and>
   (let t = (if tail (ring a) \<ge> aio_nr a then 0 else tail (ring a));
        a' = aio_complete a d ob rv
    in events (ring a') =
         (events (ring a)) [unat t := (events (ring a) ! unat t) \<lparr> data := d, obj := ob, res := rv \<rparr>] \<and>
       (unat t < length (events (ring a)) \<longrightarrow>
          data (events (ring a') ! unat t) = d \<and> obj (events (ring a') ! unat t) = ob \<and>
          res (events (ring a') ! unat t) = rv) \<and>
       (aio_nr a \<noteq> 0 \<longrightarrow>
          unat (tail (ring a')) = (unat t + 1) mod unat (aio_nr a) \<and>
          tail (ring a') < aio_nr a))"
proof -
  define t where "t = (if tail (ring a) \<ge> aio_nr a then 0 else tail (ring a))"
  have ev: "events (ring (aio_complete a d ob rv)) =
         (events (ring a)) [unat t := (events (ring a) ! unat t) \<lparr> data := d, obj := ob, res := rv \<rparr>]"
    by (simp add: aio_complete_events t_def Let_def)
  have tl: "tail (ring (aio_complete a d ob rv)) = (if t + 1 = aio_nr a then 0 else t + 1)"
    by (simp add: aio_complete_tail_val t_def Let_def)
  have lt: "t < aio_nr a" if "aio_nr a \<noteq> 0"
    using that by (auto simp: t_def word_neq_0_conv not_le)
  show ?thesis
    unfolding Let_def t_def[symmetric]
    using ev tl ring_advance[OF lt]
    by (auto simp: aio_complete_def Let_def)
qed

theorem aio_complete_tail_witness:
  "aio_nr aio_corrupt \<noteq> 0 \<and> tail (ring aio_corrupt) = 77 \<and>
   unat (0::u32) < length (events (ring aio_corrupt)) \<and>
   ongoing_ops (aio_complete aio_corrupt 5 6 7) = 0 \<and>
   events (ring (aio_complete aio_corrupt 5 6 7)) ! 0 = \<lparr> data = 5, obj = 6, res = 7, res2 = 0 \<rparr> \<and>
   tail (ring (aio_complete aio_corrupt 5 6 7)) = 1 \<and>
   tail (ring (aio_complete aio_corrupt 5 6 7)) < aio_nr aio_corrupt"
  using aio_complete_tail[of aio_corrupt 5 6 7]
  by (simp add: aio_corrupt_def ring0_def zero_event_def aio_complete_def Let_def)

text \<open>A well-formed read request on an open descriptor passes every check.\<close>

lemma iocb_check_pread: "iocb_check iocb_pread enq_ok = Inr fd_rw"
  by (simp add: iocb_check_def iocb_pread_def enq_ok_def AIO_KNOWN_FLAGS_def IOCB_FLAG_RESFD_def)

lemma iocb_dispatch_pread: "iocb_dispatch iocb_pread fd_rw enq_ok = None"
  by (simp add: iocb_dispatch_def iocb_pread_def enq_ok_def fd_rw_def)

text \<open>
  The context \<open>io_setup\<close> returns for \<open>nr_events = 2^32 - 1\<close> has \<open>nr = 0\<close>, and
  the admission check lets an operation in: \<open>aio_avail_events\<close> is 0 and
  \<open>0 - 1\<close> is the largest \<open>unsigned int\<close>.
\<close>

lemma io_setup_wrapped: "io_setup env_ok 0xFFFFFFFF = Done aio_wrapped"
  by (simp add: io_setup_def env_ok_def Let_def aio_wrapped_def ring0_def aio_alloc_size_def
      pad_def sizeof_aio_ring_def sizeof_io_event_def PAGESIZE_def)

lemma iocb_enqueue_wrapped:
  "iocb_enqueue aio_wrapped iocb_pread enq_ok =
     (Inr 0, aio_wrapped \<lparr> ongoing_ops := 1, refcount := 2 \<rparr>)"
  by (simp add: iocb_enqueue_def iocb_check_pread iocb_dispatch_pread iocb_enqueue_locked_def
      aio_avail_events_def aio_wrapped_def ring0_def Let_def)

text \<open>
  The claim as stated, for every completion, fails on that context: the
  completion of its first operation stores 1 in \<open>ring->tail\<close>, which is not
  below \<open>nr = 0\<close>.
\<close>

theorem aio_complete_tail_counterexample:
  "io_setup env_ok 0xFFFFFFFF = Done aio_wrapped \<and>
   kernel_run aio_wrapped [OpEnqueue iocb_pread enq_ok] =
     Some (aio_wrapped \<lparr> ongoing_ops := 1, refcount := 2 \<rparr>) \<and>
   aio_nr (aio_wrapped \<lparr> ongoing_ops := 1, refcount := 2 \<rparr>) = 0 \<and>
   tail (ring (aio_complete (aio_wrapped \<lparr> ongoing_ops := 1, refcount := 2 \<rparr>) 7 8 16)) = 1 \<and>
   \<not> tail (ring (aio_complete (aio_wrapped \<lparr> ongoing_ops := 1, refcount := 2 \<rparr>) 7 8 16))
        < aio_nr (aio_wrapped \<lparr> ongoing_ops := 1, refcount := 2 \<rparr>)"
proof -
  have k: "kernel_run aio_wrapped [OpEnqueue iocb_pread enq_ok] =
     Some (aio_wrapped \<lparr> ongoing_ops := 1, refcount := 2 \<rparr>)"
    by (simp add: kernel_step_def iocb_enqueue_wrapped)
  have n: "aio_nr (aio_wrapped \<lparr> ongoing_ops := 1, refcount := 2 \<rparr>) = 0"
    by (simp add: aio_wrapped_def)
  have t: "tail (ring (aio_complete (aio_wrapped \<lparr> ongoing_ops := 1, refcount := 2 \<rparr>) 7 8 16)) = 1"
    by (simp add: aio_complete_def Let_def aio_wrapped_def ring0_def)
  show ?thesis
    unfolding t n using io_setup_wrapped k by simp
qed

section \<open>The event area: what the kernel never writes\<close>
















section \<open>pci_cfgenable: which accesses are enabled\<close>

lemma unat_ucast_up:
  fixes w :: "'a::len word"
  assumes "LENGTH('a) \<le> LENGTH('b::len)"
  shows "unat (ucast w :: 'b word) = unat w"
proof -
  have "unat w < 2 ^ LENGTH('a)" by simp
  also have "(2::nat) ^ LENGTH('a) \<le> 2 ^ LENGTH('b)" using assms by (simp add: power_increasing)
  finally have "take_bit LENGTH('b) (unat w) = unat w" by (simp add: take_bit_nat_eq_self)
  then show ?thesis by (simp add: unsigned_ucast_eq)
qed

lemma word_le4_cases:
  fixes b :: u32
  assumes "b \<le> 4" "b \<noteq> 3"
  shows "b = 0 \<or> b = 1 \<or> b = 2 \<or> b = 4"
proof -
  have "unat b \<le> 4" using assms(1) by (simp add: word_le_nat_alt)
  then have "unat b = 0 \<or> unat b = 1 \<or> unat b = 2 \<or> unat b = 3 \<or> unat b = 4" by arith
  moreover have "\<And>k. unat b = k \<Longrightarrow> b = of_nat k" by auto
  ultimately have "b = of_nat 0 \<or> b = of_nat 1 \<or> b = of_nat 2 \<or> b = of_nat 3 \<or> b = of_nat 4"
    by blast
  then show ?thesis using assms(2) by simp
qed

lemma take_bit_unat_mod:
  fixes reg :: u32
  shows "(take_bit n reg = 0) = (unat reg mod 2 ^ n = 0)"
  by (metis unsigned_take_bit_eq take_bit_eq_mod unat_eq_zero)

lemma pci_guard_align:
  fixes reg bytes :: u32
  assumes "bytes = 1 \<or> bytes = 2 \<or> bytes = 4"
  shows "(reg AND (bytes - 1) = 0) = (unat reg mod unat bytes = 0)"
proof -
  have m1: "reg AND 1 = take_bit 1 reg" by (simp add: take_bit_eq_mask mask_eq_exp_minus_1)
  have m2: "reg AND 3 = take_bit 2 reg" by (simp add: take_bit_eq_mask mask_eq_exp_minus_1)
  from assms consider "bytes = 1" | "bytes = 2" | "bytes = 4" by blast
  then show ?thesis
  proof cases
    case 1 then show ?thesis by simp
  next
    case 2 then show ?thesis using take_bit_unat_mod[of 1 reg] by (simp add: m1)
  next
    case 3 then show ?thesis using take_bit_unat_mod[of 2 reg] by (simp add: m2)
  qed
qed

text \<open>
  The guard of \<open>pci_cfgenable\<close> in arithmetic terms: the access is enabled for
  an aligned register below 256 and a width of 1, 2 or 4 bytes, and also for
  register 0 with a width of 0.
\<close>

lemma pci_cfgenable_enabled:
  "pci_cfgenable dev reg bytes =
     (if slot dev \<le> 31 \<and> func dev \<le> 7 \<and> reg \<le> 255 \<and>
         ((bytes = 1 \<or> bytes = 2 \<or> bytes = 4) \<and> unat reg mod unat bytes = 0 \<or>
          bytes = 0 \<and> reg = 0)
      then ([(0x0cf8, conf1_addr dev reg)], 0x0cfc + (reg AND 3))
      else ([], 0))"
proof -
  have "unat (bus dev) < 2 ^ 8" using unsigned_less[of "bus dev"] by simp
  then have bus: "(ucast (bus dev) :: u32) \<le> 255"
    by (simp add: word_le_nat_alt unat_ucast_up)
  have s: "((ucast (slot dev) :: u32) \<le> 31) = (slot dev \<le> 31)"
    by (simp add: word_le_nat_alt unat_ucast_up)
  have f: "((ucast (func dev) :: u32) \<le> 7) = (func dev \<le> 7)"
    by (simp add: word_le_nat_alt unat_ucast_up)
  have g: "(bytes \<noteq> 3 \<and> bytes \<le> 4 \<and> reg AND (bytes - 1) = 0) =
           ((bytes = 1 \<or> bytes = 2 \<or> bytes = 4) \<and> unat reg mod unat bytes = 0 \<or>
            bytes = 0 \<and> reg = 0)"
    (is "?L = ?R")
  proof
    assume L: ?L
    then have "bytes = 0 \<or> bytes = 1 \<or> bytes = 2 \<or> bytes = 4" using word_le4_cases by blast
    then show ?R
    proof
      assume "bytes = 0" with L show ?R by simp
    next
      assume "bytes = 1 \<or> bytes = 2 \<or> bytes = 4"
      with L pci_guard_align[of bytes reg] show ?R by auto
    qed
  next
    assume R: ?R
    then show ?L
    proof
      assume a: "(bytes = 1 \<or> bytes = 2 \<or> bytes = 4) \<and> unat reg mod unat bytes = 0"
      then have "reg AND (bytes - 1) = 0" using pci_guard_align[of bytes reg] by auto
      with a show ?L by auto
    next
      assume "bytes = 0 \<and> reg = 0" then show ?L by simp
    qed
  qed
  show ?thesis
    unfolding pci_cfgenable_def PCI_BUSMAX_def PCI_SLOTMAX_def PCI_FUNCMAX_def PCI_REGMAX_def
      CONF1_ADDR_PORT_def CONF1_DATA_PORT_def
    using bus s f g by auto
qed

text \<open>
  C1. The claim has \<open>pci_cfgenable\<close> return 0 for every \<open>bytes\<close> outside
  \<open>{1, 2, 4}\<close>. For \<open>reg = 0\<close> and \<open>bytes = 0\<close> the guard holds
  (\<open>bytes != 3\<close>, \<open>bytes <= 4\<close>, and \<open>reg & (bytes - 1)\<close> is \<open>0 & 0xffffffff\<close>):
  the address is written to port \<open>0x0cf8\<close> and the data port \<open>0x0cfc\<close> is
  returned.
\<close>

theorem pci_cfgenable_zero_bytes:
  "pci_cfgenable \<lparr> bus = 0, slot = 0, func = 0 \<rparr> 0 0 = ([(0x0cf8, 0x80000000)], 0x0cfc)"
  by (simp add: pci_cfgenable_def conf1_addr_def PCI_BUSMAX_def PCI_SLOTMAX_def PCI_FUNCMAX_def
      PCI_REGMAX_def CONF1_ADDR_PORT_def CONF1_DATA_PORT_def)

text \<open>
  With that data port \<open>pci_cfgread\<close> finds no case for \<open>bytes = 0\<close> and returns
  \<open>~0\<close>; the write to the address port has happened.
\<close>

lemma pci_cfgread_zero_bytes:
  "pci_cfgread inp \<lparr> bus = 0, slot = 0, func = 0 \<rparr> 0 0 = ([(0x0cf8, 0x80000000)], 0xffffffff)"
  by (simp add: pci_cfgread_def pci_cfgenable_def conf1_addr_def PCI_BUSMAX_def PCI_SLOTMAX_def
      PCI_FUNCMAX_def PCI_REGMAX_def CONF1_ADDR_PORT_def CONF1_DATA_PORT_def)

section \<open>io_getevents: the early exits\<close>

lemma io_getevents_bad_count:
  assumes "aios p i = Some a" and "n \<le> 0 \<or> n < min_nr"
  shows "io_getevents p True i min_nr n = Errno EINVAL"
  using assms by (auto simp: io_getevents_def aio_from_ring_id_def Let_def)

text \<open>
  C5. The claim has \<open>io_getevents\<close> return \<open>-EINVAL\<close> for a context id that
  names no context. \<open>aio_from_ring_id\<close> calls \<open>refcount_reserve\<close> on the
  pointer \<open>vector_get\<close> returned before \<open>io_getevents\<close> tests it, so for such
  an id the call stores through a null pointer and the test \<open>!aio\<close> is not
  reached.
\<close>

theorem io_getevents_unknown_context:
  "io_getevents \<lparr> aios = (\<lambda>i. None) \<rparr> True 7 1 1 = Panic NullDeref"
  by (simp add: io_getevents_def aio_from_ring_id_def)

section \<open>input: the checksum bounds check\<close>

text \<open>
  C6. The claim has a frame dropped whenever \<open>csum_start + csum_offset\<close> is
  past the payload length minus 2, payloads shorter than 2 bytes included. For
  a payload of 1 byte (13 bytes written, header of 12) \<open>len - sizeof(u16)\<close> is
  \<open>2^64 - 1\<close>, the comparison at line 207 holds, two bytes are stored at offset
  0 and the frame goes to the network stack.
\<close>

theorem input_one_byte_payload:
  "input 12 \<lparr> hdr = \<lparr> flags = 1, gso_type = 0, hdr_len = 0, gso_size = 0,
                       csum_start = 0, csum_offset = 0 \<rparr>,
              payload = [7, 9, 0, 0], pbuf_len = 16 \<rparr> 13 True
     = RxStack True [0xf8]"
  by (simp add: input_def Let_def VIRTIO_NET_HDR_F_NEEDS_CSUM_def store16_def vnet_csum_def
      csum_words.simps csum_tail_def csum_fold_def csum_add_def load64_def load32_def load16_def)

lemma csum_bounds_check:
  fixes cs co :: u16 and len :: u64
  assumes "2 \<le> len"
  shows "((ucast cs + ucast co :: u64) \<le> len - 2) = (unat cs + unat co + 2 \<le> unat len)"
proof -
  have a: "unat cs < 2 ^ 16" "unat co < 2 ^ 16"
    using unsigned_less[of cs] unsigned_less[of co] by simp_all
  have "unat (ucast cs + ucast co :: u64) = unat cs + unat co"
    using a by (simp add: unat_word_ariths unat_ucast_up)
  moreover have "unat (len - 2) = unat len - 2"
    using assms by (simp add: unat_sub)
  moreover have "2 \<le> unat len" using assms by (simp add: word_le_nat_alt)
  ultimately show ?thesis by (auto simp: word_le_nat_alt)
qed

text \<open>
  For a payload of at least 2 bytes that lies inside the buffer the check is
  the one the specification words: in bounds, the checksum of the bytes from
  \<open>csum_start\<close> to the end of the payload is stored at
  \<open>csum_start + csum_offset\<close> and the frame goes to the stack; out of bounds,
  the frame is dropped.
\<close>

lemma input_checksum_bounds:
  assumes needs: "flags (hdr x) AND VIRTIO_NET_HDR_F_NEEDS_CSUM \<noteq> 0"
    and len: "len = len0 - net_header_len"
    and fits: "len \<le> ucast (pbuf_len x)"
    and ge2: "2 \<le> len"
    and cap: "unat len \<le> length (payload x)"
  shows "input net_header_len x len0 stack_ok =
     (let start = unat (csum_start (hdr x));
          off = start + unat (csum_offset (hdr x));
          c = vnet_csum (take (unat len - start) (drop start (payload x)))
      in if off + 2 \<le> unat len
         then RxStack stack_ok
                (take (unat len) ((payload x) [off := ucast c, off + 1 := ucast (drop_bit 8 c)]))
         else RxDropped)"
proof (cases "unat (csum_start (hdr x)) + unat (csum_offset (hdr x)) + 2 \<le> unat len")
  case False
  with csum_bounds_check[OF ge2, of "csum_start (hdr x)" "csum_offset (hdr x)"]
  show ?thesis using needs fits by (simp add: input_def Let_def len[symmetric])
next
  case True
  define start where "start = unat (csum_start (hdr x))"
  have le: "ucast (csum_start (hdr x)) \<le> len"
    using True by (simp add: word_le_nat_alt unat_ucast_up)
  have n: "unat (len - ucast (csum_start (hdr x))) = unat len - start"
    using le by (simp add: unat_sub unat_ucast_up start_def)
  have s: "start \<le> unat len" using True by (simp add: start_def)
  from True csum_bounds_check[OF ge2, of "csum_start (hdr x)" "csum_offset (hdr x)"]
  show ?thesis
    using needs fits cap s True
    by (simp add: input_def Let_def len[symmetric] n start_def[symmetric] store16_def)
qed

section \<open>iocb_enqueue: the admission check\<close>

lemma sint_u32:
  fixes w :: u32
  shows "sint w = (if uint w < 2 ^ 31 then uint w else uint w - 2 ^ 32)"
proof -
  have b: "0 \<le> uint w" "uint w < 2 ^ 32" using uint_lt2p[of w] by simp_all
  have "sint w = (uint w + 2 ^ 31) mod 2 ^ 32 - 2 ^ 31"
    by (simp add: sint_uint signed_take_bit_eq_take_bit_shift take_bit_eq_mod)
  also have "\<dots> = (if uint w < 2 ^ 31 then uint w else uint w - 2 ^ 32)"
  proof (cases "uint w < 2 ^ 31")
    case True
    with b have "(uint w + 2 ^ 31) mod 2 ^ 32 = uint w + 2 ^ 31" by simp
    with True show ?thesis by simp
  next
    case False
    with b have "(uint w + 2 ^ 31) mod 2 ^ 32 = uint w + 2 ^ 31 - 2 ^ 32"
      by (simp add: mod_pos_geq)
    with False show ?thesis by simp
  qed
  finally show ?thesis .
qed

lemma aio_avail_events_in_range:
  assumes h: "head (ring a) < aio_nr a" and t: "tail (ring a) < aio_nr a"
    and n: "uint (aio_nr a) \<le> 2 ^ 31"
  shows "uint (aio_avail_events a) = available_slots a"
    and "1 \<le> available_slots a" and "available_slots a \<le> uint (aio_nr a)"
proof -
  define H where "H = uint (head (ring a))"
  define T where "T = uint (tail (ring a))"
  define N where "N = uint (aio_nr a)"
  have H: "0 \<le> H" "H < N" using h by (simp_all add: H_def N_def word_less_def)
  have T: "0 \<le> T" "T < N" using t by (simp_all add: T_def N_def word_less_def)
  have N: "N \<le> 2 ^ 31" using n by (simp add: N_def)
  have d: "uint (head (ring a) - tail (ring a)) = (if T \<le> H then H - T else H - T + 2 ^ 32)"
    by (simp add: uint_sub_if' H_def T_def)
  have spec: "available_slots a = (if H = T then N else if T < H then H - T else H - T + N)"
  proof -
    have "(H - T) mod N = (if T \<le> H then H - T else H - T + N)"
      using H T by (intro mod_sub_if_z) simp_all
    then show ?thesis
      using H T by (auto simp: available_slots_def Let_def H_def[symmetric] T_def[symmetric] N_def[symmetric])
  qed
  have code: "uint (aio_avail_events a) = (if H = T then N else if T < H then H - T else H - T + N)"
  proof (cases "T \<le> H")
    case True
    then have u: "uint (head (ring a) - tail (ring a)) = H - T" using d by simp
    have s: "sint (head (ring a) - tail (ring a)) = H - T"
      using H T N True by (simp add: sint_u32 u)
    show ?thesis
    proof (cases "H = T")
      case True
      then have "head (ring a) = tail (ring a)" by (simp add: H_def T_def word_uint_eq_iff)
      then show ?thesis using True by (simp add: aio_avail_events_def Let_def N_def)
    next
      case False
      with True s u show ?thesis by (simp add: aio_avail_events_def Let_def)
    qed
  next
    case False
    then have u: "uint (head (ring a) - tail (ring a)) = H - T + 2 ^ 32" using d by simp
    have s: "sint (head (ring a) - tail (ring a)) = H - T"
      using H T N False by (simp add: sint_u32 u)
    have "uint (head (ring a) - tail (ring a) + aio_nr a) = H - T + N"
      using H T N False by (simp add: uint_plus_if' u N_def[symmetric])
    with False s show ?thesis by (simp add: aio_avail_events_def Let_def)
  qed
  show "uint (aio_avail_events a) = available_slots a" using code spec by simp
  show "1 \<le> available_slots a" using spec H T by auto
  show "available_slots a \<le> uint (aio_nr a)" using spec H T by (auto simp: N_def)
qed

lemma iocb_check_not_EAGAIN: "iocb_check cb env \<noteq> Inl EAGAIN"
  by (simp add: iocb_check_def split: option.splits)

lemma iocb_dispatch_not_EAGAIN: "iocb_dispatch cb f env \<noteq> Some EAGAIN"
  by (simp add: iocb_dispatch_def)

lemma iocb_enqueue_EAGAIN:
  "(fst (iocb_enqueue a cb env) = Inl EAGAIN) =
     ((\<exists>f. iocb_check cb env = Inr f) \<and> iocb_enqueue_locked a = None)"
proof (cases "iocb_check cb env")
  case (Inl e)
  then have "e \<noteq> EAGAIN" using iocb_check_not_EAGAIN[of cb env] by auto
  with Inl show ?thesis by (simp add: iocb_enqueue_def)
next
  case (Inr f)
  show ?thesis
  proof (cases "iocb_enqueue_locked a")
    case None
    with Inr show ?thesis by (simp add: iocb_enqueue_def)
  next
    case (Some a1)
    with Inr iocb_dispatch_not_EAGAIN[of cb f env] show ?thesis
      by (auto simp: iocb_enqueue_def Let_def split: option.splits)
  qed
qed

lemma iocb_enqueue_locked_in_range:
  assumes h: "head (ring a) < aio_nr a" and t: "tail (ring a) < aio_nr a"
    and n: "uint (aio_nr a) \<le> 2 ^ 31"
  shows "(iocb_enqueue_locked a = None) = (available_slots a - 1 \<le> uint (ongoing_ops a))"
    and "iocb_enqueue_locked a = Some a' \<Longrightarrow>
           a' = a \<lparr> ongoing_ops := ongoing_ops a + 1 \<rparr> \<and>
           uint (ongoing_ops a') = uint (ongoing_ops a) + 1 \<and>
           uint (ongoing_ops a') \<le> available_slots a' - 1"
proof -
  note av = aio_avail_events_in_range[OF h t n]
  have one: "1 \<le> aio_avail_events a"
    using av(1) av(2) by (simp add: word_le_def)
  have m: "uint (aio_avail_events a - 1) = available_slots a - 1"
    using one av(1) by (simp add: uint_sub_if' word_le_def)
  show c: "(iocb_enqueue_locked a = None) = (available_slots a - 1 \<le> uint (ongoing_ops a))"
    using m by (simp add: iocb_enqueue_locked_def word_le_def)
  assume s: "iocb_enqueue_locked a = Some a'"
  then have a': "a' = a \<lparr> ongoing_ops := ongoing_ops a + 1 \<rparr>"
    by (auto simp: iocb_enqueue_locked_def split: if_splits)
  from s c have lt: "uint (ongoing_ops a) < available_slots a - 1" by simp
  with av(3) n have "uint (ongoing_ops a) + 1 < 2 ^ 32" by simp
  then have u: "uint (ongoing_ops a + 1) = uint (ongoing_ops a) + 1"
    by (simp add: uint_plus_if')
  have "available_slots a' = available_slots a" by (simp add: a' available_slots_def Let_def)
  with a' u lt show "a' = a \<lparr> ongoing_ops := ongoing_ops a + 1 \<rparr> \<and>
           uint (ongoing_ops a') = uint (ongoing_ops a) + 1 \<and>
           uint (ongoing_ops a') \<le> available_slots a' - 1" by simp
qed

text \<open>
  C3, as amended. For every AIO context whose ring indices are in range
  (\<open>head < nr\<close>, \<open>tail < nr\<close>, \<open>nr \<le> 2^31\<close>): an enqueue attempt fails with
  \<open>EAGAIN\<close> exactly when it reaches the admission check (the IOCB passes the
  checks before the lock and its descriptor is found) and
  \<open>ongoing_ops \<ge> available_slots - 1\<close>, where \<open>available_slots\<close> is
  \<open>(head - tail) mod nr\<close>, taken as \<open>nr\<close> when that is zero; otherwise the
  locked section adds exactly one to \<open>ongoing_ops\<close>, and
  \<open>ongoing_ops \<le> available_slots - 1\<close> holds when the lock is released.
\<close>

theorem admission_rule:
  assumes "head (ring a) < aio_nr a" and "tail (ring a) < aio_nr a"
    and "uint (aio_nr a) \<le> 2 ^ 31"
  shows "(fst (iocb_enqueue a cb env) = Inl EAGAIN) =
           ((\<exists>f. iocb_check cb env = Inr f) \<and> available_slots a - 1 \<le> uint (ongoing_ops a)) \<and>
         (iocb_enqueue_locked a = None) = (available_slots a - 1 \<le> uint (ongoing_ops a)) \<and>
         (\<forall>a'. iocb_enqueue_locked a = Some a' \<longrightarrow>
            a' = a \<lparr> ongoing_ops := ongoing_ops a + 1 \<rparr> \<and>
            uint (ongoing_ops a') = uint (ongoing_ops a) + 1 \<and>
            uint (ongoing_ops a') \<le> available_slots a' - 1)"
proof (intro conjI allI impI)
  show "(fst (iocb_enqueue a cb env) = Inl EAGAIN) =
           ((\<exists>f. iocb_check cb env = Inr f) \<and> available_slots a - 1 \<le> uint (ongoing_ops a))"
    unfolding iocb_enqueue_EAGAIN iocb_enqueue_locked_in_range(1)[OF assms] ..
  show "(iocb_enqueue_locked a = None) = (available_slots a - 1 \<le> uint (ongoing_ops a))"
    by (rule iocb_enqueue_locked_in_range(1)[OF assms])
next
  fix a' assume s: "iocb_enqueue_locked a = Some a'"
  note r = iocb_enqueue_locked_in_range(2)[OF assms s]
  show "a' = a \<lparr> ongoing_ops := ongoing_ops a + 1 \<rparr>" using r by (rule conjunct1)
  show "uint (ongoing_ops a') = uint (ongoing_ops a) + 1"
    using r by (elim conjE)
  show "uint (ongoing_ops a') \<le> available_slots a' - 1"
    using r by (elim conjE)
qed

lemma aio_busy_in_range:
  "head (ring (aio_busy ops)) < aio_nr (aio_busy ops)"
  "tail (ring (aio_busy ops)) < aio_nr (aio_busy ops)"
  "uint (aio_nr (aio_busy ops)) \<le> 2 ^ 31"
  by (simp_all add: aio_busy_def ring0_def)

theorem admission_rule_witness:
  "head (ring (aio_busy 3)) < aio_nr (aio_busy 3) \<and> tail (ring (aio_busy 3)) < aio_nr (aio_busy 3) \<and>
   uint (aio_nr (aio_busy 3)) \<le> 2 ^ 31 \<and>
   available_slots (aio_busy 3) = 4 \<and>
   iocb_check iocb_pread enq_ok = Inr fd_rw \<and>
   fst (iocb_enqueue (aio_busy 3) iocb_pread enq_ok) = Inl EAGAIN \<and>
   iocb_enqueue_locked (aio_busy 1) = Some (aio_busy 2) \<and>
   uint (ongoing_ops (aio_busy 2)) \<le> available_slots (aio_busy 2) - 1"
proof -
  have av: "available_slots (aio_busy ops) = 4" for ops
    by (simp add: available_slots_def aio_busy_def ring0_def)
  have ops: "ongoing_ops (aio_busy ops) = ops" for ops
    by (simp add: aio_busy_def)
  have l: "iocb_enqueue_locked (aio_busy 1) = Some (aio_busy 2)"
    by (simp add: iocb_enqueue_locked_def aio_avail_events_def aio_busy_def ring0_def
        word_le_nat_alt)
  have e: "fst (iocb_enqueue (aio_busy 3) iocb_pread enq_ok) = Inl EAGAIN"
    using admission_rule[OF aio_busy_in_range, of 3 iocb_pread enq_ok]
    by (simp add: av ops iocb_check_pread)
  have "\<forall>a'. iocb_enqueue_locked (aio_busy 1) = Some a' \<longrightarrow>
            a' = aio_busy 1 \<lparr> ongoing_ops := ongoing_ops (aio_busy 1) + 1 \<rparr> \<and>
            uint (ongoing_ops a') = uint (ongoing_ops (aio_busy 1)) + 1 \<and>
            uint (ongoing_ops a') \<le> available_slots a' - 1"
    using admission_rule[OF aio_busy_in_range, of 1 iocb_pread enq_ok]
    by (elim conjE)
  from this[THEN spec, of "aio_busy 2", THEN mp, OF l]
  have i: "uint (ongoing_ops (aio_busy 2)) \<le> available_slots (aio_busy 2) - 1"
    by (elim conjE)
  from aio_busy_in_range[of 3] av[of 3] iocb_check_pread e l i
  show ?thesis by (intro conjI)
qed

text \<open>
  The claim as stated, for every context, fails where the ring header holds an
  index out of range: the ring is mapped writable into the process, and the
  admission check uses \<open>head\<close> and \<open>tail\<close> as it finds them. With
  \<open>head = 7\<close>, \<open>tail = 0\<close>, \<open>nr = 2\<close> and no operation in flight,
  \<open>(head - tail) mod nr\<close> is 1 and \<open>ongoing_ops \<ge> available_slots - 1\<close> holds,
  yet the attempt is admitted.
\<close>

theorem admission_rule_counterexample:
  "available_slots aio_head7 = 1 \<and> available_slots aio_head7 - 1 \<le> uint (ongoing_ops aio_head7) \<and>
   iocb_check iocb_pread enq_ok = Inr fd_rw \<and>
   fst (iocb_enqueue aio_head7 iocb_pread enq_ok) = Inr 0"
proof -
  have av: "available_slots aio_head7 = 1"
    by (simp add: available_slots_def aio_head7_def ring0_def)
  have ops: "ongoing_ops aio_head7 = 0" by (simp add: aio_head7_def)
  have "aio_avail_events aio_head7 = 7"
    by (simp add: aio_avail_events_def aio_head7_def ring0_def)
  then have "iocb_enqueue_locked aio_head7 = Some (aio_head7 \<lparr> ongoing_ops := 1 \<rparr>)"
    by (simp add: iocb_enqueue_locked_def ops word_le_nat_alt)
  then have "fst (iocb_enqueue aio_head7 iocb_pread enq_ok) = Inr 0"
    by (simp add: iocb_enqueue_def iocb_check_pread iocb_dispatch_pread Let_def)
  with av ops iocb_check_pread show ?thesis by simp
qed

section \<open>io_submit: what the call returns\<close>























section \<open>vnet_csum: the one's-complement sum\<close>

lemma eac_norm_small: "n \<le> M \<Longrightarrow> eac_norm M n = n"
  by (auto simp: eac_norm_def)

lemma eac_norm_le: "0 < M \<Longrightarrow> eac_norm M n \<le> M"
  by (auto simp: eac_norm_def Suc_leI)

lemma eac_norm_zero_iff: "(eac_norm M n = 0) = (n = 0)"
  by (simp add: eac_norm_def)

lemma eac_norm_add_mult: "eac_norm M (a + M * k) = eac_norm M a" if "0 < a"
proof -
  have "a + M * k - 1 = (a - 1) + M * k" using that by simp
  then have "(a + M * k - 1) mod M = (a - 1) mod M" by (simp only: mod_mult_self2)
  then show ?thesis using that by (simp add: eac_norm_def)
qed

lemma eac_norm_dvd_add:
  assumes "M dvd M'"
  shows "eac_norm M (eac_norm M' a + b) = eac_norm M (a + b)"
proof (cases "a = 0")
  case True
  then show ?thesis by (simp add: eac_norm_def)
next
  case False
  have "((a - 1) mod M' + 1 + b - 1) mod M = ((a - 1) mod M' + b) mod M" by simp
  also have "\<dots> = ((a - 1) mod M' mod M + b) mod M" by (simp add: mod_add_left_eq)
  also have "\<dots> = ((a - 1) mod M + b) mod M" using assms by (simp add: mod_mod_cancel)
  also have "\<dots> = (a - 1 + b) mod M" by (simp add: mod_add_left_eq)
  also have "\<dots> = (a + b - 1) mod M" using False by simp
  finally show ?thesis using False by (simp add: eac_norm_def)
qed

lemma eac_norm_dvd:
  assumes "M dvd M'"
  shows "eac_norm M (eac_norm M' a) = eac_norm M a"
  using eac_norm_dvd_add[OF assms, of a 0] by simp

lemma eac_fold_norm:
  assumes "0 < w"
  shows "eac_fold w n = eac_norm (2 ^ w - 1) n"
  using assms
proof (induction w n rule: eac_fold.induct)
  case (1 w n)
  show ?case
  proof (cases "n < 2 ^ w")
    case True
    then have "eac_fold w n = n" by (subst eac_fold.simps) simp
    moreover have "eac_norm (2 ^ w - 1) n = n"
      using True by (intro eac_norm_small) simp
    ultimately show ?thesis by simp
  next
    case False
    define q where "q = n div 2 ^ w"
    define r where "r = n mod 2 ^ w"
    define M where "M = (2::nat) ^ w - 1"
    have M1: "M + 1 = 2 ^ w" by (simp add: M_def)
    have q: "1 \<le> q" using False by (simp add: q_def div_greater_zero_iff Suc_leI)
    have n: "q * 2 ^ w + r = n" unfolding q_def r_def by (rule div_mult_mod_eq)
    have "eac_fold w n = eac_fold w (r + q)"
      using False "1.prems" by (subst eac_fold.simps) (simp add: q_def r_def)
    also have "\<dots> = eac_norm M (r + q)"
      using "1.IH" False "1.prems" by (simp add: q_def r_def M_def)
    also have "\<dots> = eac_norm M (r + q + M * q)"
      using q by (simp add: eac_norm_add_mult)
    also have "r + q + M * q = n"
    proof -
      have "r + q + M * q = q * (M + 1) + r" by (simp add: algebra_simps)
      also have "\<dots> = q * 2 ^ w + r" by (simp only: M1)
      finally show ?thesis using n by simp
    qed
    finally show ?thesis by (simp add: M_def)
  qed
qed

lemma word_eac_add:
  fixes x y :: "'a::len word"
  shows "unat (let t = x + y in if t < y then t + 1 else t) =
           eac_norm (2 ^ LENGTH('a) - 1) (unat x + unat y)"
proof -
  define L where "L = (2::nat) ^ LENGTH('a)"
  have X: "unat x < L" and Y: "unat y < L" by (simp_all add: L_def)
  have "Suc 0 \<le> LENGTH('a)" by (simp add: Suc_leI)
  then have L2: "2 \<le> L" unfolding L_def using power_increasing[of 1 "LENGTH('a)" "2::nat"] by simp
  have ov: "(x + y < y) = (L \<le> unat x + unat y)"
  proof -
    have "(y \<le> y + x) = (unat y + unat x < L)" unfolding L_def by (rule no_olen_add_nat)
    then show ?thesis by (auto simp: add.commute not_le[symmetric])
  qed
  show ?thesis
  proof (cases "L \<le> unat x + unat y")
    case False
    then have "unat (x + y) = unat x + unat y"
      by (simp add: unat_word_ariths L_def)
    moreover have "eac_norm (L - 1) (unat x + unat y) = unat x + unat y"
      using False by (intro eac_norm_small) simp
    ultimately show ?thesis using False ov by (simp add: Let_def L_def)
  next
    case True
    define d where "d = unat x + unat y - L"
    have d: "unat x + unat y = d + L" "d + 1 < L" using True X Y by (simp_all add: d_def)
    have t: "unat (x + y) = d"
      using d by (simp add: unat_word_ariths L_def[symmetric])
    have "unat (x + y + 1) = d + 1"
    proof -
      have "unat (x + y + 1) = (unat (x + y) + 1) mod L"
        by (simp add: unat_word_ariths L_def)
      then show ?thesis using t d by simp
    qed
    moreover have "eac_norm (L - 1) (unat x + unat y) = d + 1"
    proof -
      obtain M where M: "L = Suc M" using L2 by (cases L) auto
      have "unat x + unat y - 1 = d + M" using d M by simp
      moreover have "d < M" using d M by simp
      ultimately have "(unat x + unat y - 1) mod M = d" by simp
      then show ?thesis using d M by (simp add: eac_norm_def)
    qed
    ultimately show ?thesis using True ov by (simp add: Let_def L_def)
  qed
qed

lemma csum_add_eac: "unat (csum_add acc s) = eac_norm (2 ^ 64 - 1) (unat acc + unat s)"
  using word_eac_add[of acc s] by (simp add: csum_add_def)

lemma eac_norm_split:
  assumes "M + 1 = B"
  shows "eac_norm M (lo + B * hi) = eac_norm M (lo + hi)"
proof (cases "lo + hi = 0")
  case True
  then show ?thesis by simp
next
  case False
  have e: "lo + B * hi = (lo + hi) + M * hi" using assms by (auto simp: algebra_simps)
  have "eac_norm M (lo + B * hi) = eac_norm M ((lo + hi) + M * hi)" by (simp only: e)
  also have "\<dots> = eac_norm M (lo + hi)" by (rule eac_norm_add_mult) (use False in simp)
  finally show ?thesis .
qed

lemma csum_fold_eac: "unat (csum_fold acc) = eac_norm (2 ^ 16 - 1) (unat acc)"
proof -
  define s1 where "s1 = (ucast acc :: u32)"
  define s2 where "s2 = (ucast (drop_bit 32 acc) :: u32)"
  define t where "t = (let t = s1 + s2 in if t < s2 then t + 1 else t)"
  define s3 where "s3 = (ucast t :: u16)"
  define s4 where "s4 = (ucast (drop_bit 16 t) :: u16)"
  have f: "csum_fold acc = (let u = s3 + s4 in if u < s4 then u + 1 else u)"
    by (simp add: csum_fold_def Let_def s1_def s2_def t_def s3_def s4_def)
  have u1: "unat s1 = unat acc mod 2 ^ 32"
    by (simp add: s1_def unsigned_ucast_eq take_bit_eq_mod)
  have u2: "unat s2 = unat acc div 2 ^ 32"
  proof -
    have "unat acc div 2 ^ 32 < 2 ^ 32"
      using unsigned_less[of acc, where 'a = nat] by (simp add: less_mult_imp_div_less)
    then show ?thesis
      by (simp add: s2_def unsigned_ucast_eq unsigned_drop_bit_eq take_bit_eq_mod drop_bit_eq_div
          unat_div_distrib)
  qed
  have a: "unat acc = unat s1 + 2 ^ 32 * unat s2" by (simp add: u1 u2)
  have t32: "unat t = eac_norm (2 ^ 32 - 1) (unat acc)"
  proof -
    have "unat t = eac_norm (2 ^ 32 - 1) (unat s1 + unat s2)"
      using word_eac_add[of s1 s2] by (simp add: t_def)
    also have "\<dots> = eac_norm (2 ^ 32 - 1) (unat s1 + 2 ^ 32 * unat s2)"
      by (rule eac_norm_split[symmetric]) simp
    finally show ?thesis by (simp add: a)
  qed
  have u3: "unat s3 = unat t mod 2 ^ 16"
    by (simp add: s3_def unsigned_ucast_eq take_bit_eq_mod)
  have u4: "unat s4 = unat t div 2 ^ 16"
  proof -
    have "unat t div 2 ^ 16 < 2 ^ 16"
      using unsigned_less[of t, where 'a = nat] by (simp add: less_mult_imp_div_less)
    then show ?thesis
      by (simp add: s4_def unsigned_ucast_eq unsigned_drop_bit_eq take_bit_eq_mod drop_bit_eq_div
          unat_div_distrib)
  qed
  have b: "unat s3 + 2 ^ 16 * unat s4 = unat t" by (simp add: u3 u4)
  have "unat (csum_fold acc) = eac_norm (2 ^ 16 - 1) (unat s3 + unat s4)"
    using word_eac_add[of s3 s4] by (simp add: f)
  also have "\<dots> = eac_norm (2 ^ 16 - 1) (unat s3 + 2 ^ 16 * unat s4)"
    by (rule eac_norm_split[symmetric]) simp
  also have "\<dots> = eac_norm (2 ^ 16 - 1) (eac_norm (2 ^ 32 - 1) (unat acc))"
    by (simp only: b t32)
  also have "\<dots> = eac_norm (2 ^ 16 - 1) (unat acc)"
    by (rule eac_norm_dvd) simp
  finally show ?thesis .
qed

lemma le_nat_less: "le_nat bs < 256 ^ length bs"
proof (induction bs)
  case Nil
  show ?case by simp
next
  case (Cons b bs)
  have "unat b < 256" using unsigned_less[of b, where 'a = nat] by simp
  moreover have "le_nat bs + 1 \<le> 256 ^ length bs" using Cons by simp
  then have "256 * (le_nat bs + 1) \<le> 256 * 256 ^ length bs" by (rule mult_le_mono2)
  ultimately show ?case by simp
qed

lemma le_nat_take_less: "le_nat (take k buf) < 256 ^ k"
proof -
  have "le_nat (take k buf) < 256 ^ length (take k buf)" by (rule le_nat_less)
  also have "(256::nat) ^ length (take k buf) \<le> 256 ^ k" by (intro power_increasing) simp_all
  finally show ?thesis .
qed

lemma unat_load64: "unat (load64 buf) = le_nat (take 8 buf)"
  using le_nat_take_less[of 8 buf] by (simp add: load64_def unat_of_nat)

lemma unat_load32: "unat (ucast (load32 buf) :: u64) = le_nat (take 4 buf)"
  using le_nat_take_less[of 4 buf] by (simp add: load32_def unat_of_nat unat_ucast_up)

lemma unat_load16: "unat (ucast (load16 buf) :: u64) = le_nat (take 2 buf)"
  using le_nat_take_less[of 2 buf] by (simp add: load16_def unat_of_nat unat_ucast_up)

lemma sum16_le_nat: "eac_norm 65535 (c + le_nat bs) = eac_norm 65535 (c + sum16 bs)"
proof (induction bs arbitrary: c rule: sum16.induct)
  case 1
  show ?case by simp
next
  case (2 b)
  show ?case by simp
next
  case (3 b0 b1 bs)
  have "c + le_nat (b0 # b1 # bs) = (c + unat b0 + 256 * unat b1) + 65536 * le_nat bs"
    by simp
  then have "eac_norm 65535 (c + le_nat (b0 # b1 # bs)) =
        eac_norm 65535 ((c + unat b0 + 256 * unat b1) + 65536 * le_nat bs)" by (rule arg_cong)
  also have "\<dots> = eac_norm 65535 ((c + unat b0 + 256 * unat b1) + le_nat bs)"
    by (rule eac_norm_split) simp
  also have "\<dots> = eac_norm 65535 ((c + unat b0 + 256 * unat b1) + sum16 bs)"
    by (rule "3.IH")
  finally show ?case by (simp add: ac_simps)
qed

lemma sum16_append: "even (length xs) \<Longrightarrow> sum16 (xs @ ys) = sum16 xs + sum16 ys"
  by (induction xs rule: sum16.induct) simp_all

lemma sum16_take_drop:
  assumes "even k" and "k \<le> length buf"
  shows "sum16 (take k buf) + sum16 (drop k buf) = sum16 buf"
proof -
  have "even (length (take k buf))" using assms by (simp add: min_def)
  from sum16_append[OF this, of "drop k buf"] show ?thesis by simp
qed

text \<open>One accumulation step: an even number of bytes leaves the front of the buffer.\<close>

lemma csum_step:
  assumes "even k" and "k \<le> length buf" and "unat s = le_nat (take k buf)"
  shows "eac_norm 65535 (unat (csum_add acc s) + sum16 (drop k buf)) =
         eac_norm 65535 (unat acc + sum16 buf)"
proof -
  have "eac_norm 65535 (unat (csum_add acc s) + sum16 (drop k buf)) =
        eac_norm 65535 (eac_norm (2 ^ 64 - 1) (unat acc + unat s) + sum16 (drop k buf))"
    by (simp only: csum_add_eac)
  also have "\<dots> = eac_norm 65535 ((unat acc + unat s) + sum16 (drop k buf))"
    by (rule eac_norm_dvd_add) simp
  also have "\<dots> = eac_norm 65535 ((unat acc + sum16 (drop k buf)) + le_nat (take k buf))"
    by (simp add: assms(3) ac_simps)
  also have "\<dots> = eac_norm 65535 ((unat acc + sum16 (drop k buf)) + sum16 (take k buf))"
    by (rule sum16_le_nat)
  also have "\<dots> = eac_norm 65535 (unat acc + (sum16 (take k buf) + sum16 (drop k buf)))"
    by (simp add: ac_simps)
  finally show ?thesis by (simp only: sum16_take_drop[OF assms(1,2)])
qed

lemma csum_words_eac:
  "eac_norm 65535 (unat (fst (csum_words acc buf)) + sum16 (snd (csum_words acc buf))) =
   eac_norm 65535 (unat acc + sum16 buf) \<and> length (snd (csum_words acc buf)) < 8"
proof (induction acc buf rule: csum_words.induct)
  case (1 acc buf)
  show ?case
  proof (cases "8 \<le> length buf")
    case False
    then show ?thesis by (subst (1 2 3) csum_words.simps) simp
  next
    case True
    have u: "csum_words acc buf = csum_words (csum_add acc (load64 buf)) (drop 8 buf)"
      using True by (subst csum_words.simps) simp
    have "eac_norm 65535 (unat (csum_add acc (load64 buf)) + sum16 (drop 8 buf)) =
          eac_norm 65535 (unat acc + sum16 buf)"
      by (rule csum_step) (use True in \<open>simp_all add: unat_load64\<close>)
    with "1.IH"[OF True] show ?thesis by (simp add: u)
  qed
qed

lemma csum_tail_eac:
  assumes "length buf < 8"
  shows "eac_norm 65535 (unat (csum_tail acc buf)) = eac_norm 65535 (unat acc + sum16 buf)"
proof -
  define acc1 where "acc1 = (if 4 \<le> length buf then csum_add acc (ucast (load32 buf)) else acc)"
  define buf1 where "buf1 = (if 4 \<le> length buf then drop 4 buf else buf)"
  define acc2 where "acc2 = (if 2 \<le> length buf1 then csum_add acc1 (ucast (load16 buf1)) else acc1)"
  define buf2 where "buf2 = (if 2 \<le> length buf1 then drop 2 buf1 else buf1)"
  have t: "csum_tail acc buf = (if length buf2 \<noteq> 0 then csum_add acc2 (ucast (hd buf2)) else acc2)"
  proof -
    have p1: "(if 4 \<le> length buf then (csum_add acc (ucast (load32 buf)), drop 4 buf) else (acc, buf)) =
              (acc1, buf1)" by (simp add: acc1_def buf1_def)
    have p2: "(if 2 \<le> length buf1 then (csum_add acc1 (ucast (load16 buf1)), drop 2 buf1) else (acc1, buf1)) =
              (acc2, buf2)" by (simp add: acc2_def buf2_def)
    show ?thesis unfolding csum_tail_def p1 Let_def prod.case p2 ..
  qed
  have l1: "length buf1 < 4" using assms by (auto simp: buf1_def)
  have s1: "eac_norm 65535 (unat acc1 + sum16 buf1) = eac_norm 65535 (unat acc + sum16 buf)"
  proof (cases "4 \<le> length buf")
    case True
    have "eac_norm 65535 (unat (csum_add acc (ucast (load32 buf))) + sum16 (drop 4 buf)) =
          eac_norm 65535 (unat acc + sum16 buf)"
      by (rule csum_step) (use True in \<open>simp_all add: unat_load32\<close>)
    with True show ?thesis by (simp add: acc1_def buf1_def)
  next
    case False
    then show ?thesis by (simp add: acc1_def buf1_def)
  qed
  have l2: "length buf2 < 2" using l1 by (auto simp: buf2_def)
  have s2: "eac_norm 65535 (unat acc2 + sum16 buf2) = eac_norm 65535 (unat acc1 + sum16 buf1)"
  proof (cases "2 \<le> length buf1")
    case True
    have "eac_norm 65535 (unat (csum_add acc1 (ucast (load16 buf1))) + sum16 (drop 2 buf1)) =
          eac_norm 65535 (unat acc1 + sum16 buf1)"
      by (rule csum_step) (use True in \<open>simp_all add: unat_load16\<close>)
    with True show ?thesis by (simp add: acc2_def buf2_def)
  next
    case False
    then show ?thesis by (simp add: acc2_def buf2_def)
  qed
  have s3: "eac_norm 65535 (unat (csum_tail acc buf)) = eac_norm 65535 (unat acc2 + sum16 buf2)"
  proof (cases buf2)
    case Nil
    then show ?thesis by (simp add: t)
  next
    case (Cons b bs)
    with l2 have b: "buf2 = [b]" by simp
    have "eac_norm 65535 (unat (csum_add acc2 (ucast b))) =
          eac_norm 65535 (eac_norm (2 ^ 64 - 1) (unat acc2 + unat b))"
      by (simp add: csum_add_eac unat_ucast_up)
    also have "\<dots> = eac_norm 65535 (unat acc2 + unat b)"
      by (rule eac_norm_dvd) simp
    finally show ?thesis by (simp add: t b)
  qed
  from s1 s2 s3 show ?thesis by simp
qed

lemma eac_fold_16: "eac_fold 16 n = eac_norm 65535 n"
  using eac_fold_norm[of 16 n] by simp

lemma vnet_csum_sum16: "vnet_csum buf = NOT (ones_complement_sum buf)"
proof -
  obtain acc rest where w: "csum_words 0 buf = (acc, rest)" by (cases "csum_words 0 buf")
  from csum_words_eac[of 0 buf] w
  have a: "eac_norm 65535 (unat acc + sum16 rest) = eac_norm 65535 (sum16 buf)"
    and l: "length rest < 8" by simp_all
  have "unat (csum_fold (csum_tail acc rest)) = eac_norm 65535 (unat (csum_tail acc rest))"
    using csum_fold_eac[of "csum_tail acc rest"] by simp
  also have "\<dots> = eac_norm 65535 (sum16 buf)"
    using csum_tail_eac[OF l, of acc] a by simp
  finally have "unat (csum_fold (csum_tail acc rest)) = eac_fold 16 (sum16 buf)"
    by (simp add: eac_fold_16)
  then have "csum_fold (csum_tail acc rest) = of_nat (eac_fold 16 (sum16 buf))"
    by (metis of_nat_unat ucast_id)
  then show ?thesis by (simp add: vnet_csum_def w ones_complement_sum_def)
qed

lemma load16_store:
  fixes c :: u16
  shows "load16 (ucast c # ucast (drop_bit 8 c) # rest) = c"
proof -
  have lo: "unat (ucast c :: u8) = unat c mod 256"
    by (simp add: unsigned_ucast_eq take_bit_eq_mod)
  have "unat c div 256 < 256"
    using unsigned_less[of c, where 'a = nat] by (simp add: less_mult_imp_div_less)
  then have hi: "unat (ucast (drop_bit 8 c) :: u8) = unat c div 256"
    by (simp add: unsigned_ucast_eq unsigned_drop_bit_eq take_bit_eq_mod drop_bit_eq_div
        unat_div_distrib)
  have "le_nat (take 2 (ucast c # ucast (drop_bit 8 c) # rest)) = unat c"
    by (simp add: numeral_2_eq_2 lo hi)
  then show ?thesis by (simp add: load16_def)
qed

lemma input_frame60:
  assumes len: "60 \<le> length (payload x)" and pl: "60 \<le> pbuf_len x"
    and fl: "flags (hdr x) AND VIRTIO_NET_HDR_F_NEEDS_CSUM \<noteq> 0"
    and cs: "csum_start (hdr x) = 14" and co: "csum_offset (hdr x) = 16"
    and c: "c = vnet_csum (take 46 (drop 14 (payload x)))"
  shows "input hl x (hl + 60) ok =
           RxStack ok (take 60 ((payload x) [30 := ucast c, 31 := ucast (drop_bit 8 c)]))"
proof -
  have p: "(60::u64) \<le> ucast (pbuf_len x)"
    using pl by (simp add: word_le_nat_alt unat_ucast_up)
  have "input hl x (hl + 60) ok =
     (let start = unat (csum_start (hdr x));
          off = start + unat (csum_offset (hdr x));
          c = vnet_csum (take (unat (60::u64) - start) (drop start (payload x)))
      in if off + 2 \<le> unat (60::u64)
         then RxStack ok
                (take (unat (60::u64)) ((payload x) [off := ucast c, off + 1 := ucast (drop_bit 8 c)]))
         else RxDropped)"
    by (rule input_checksum_bounds[OF fl _ p]) (use len in simp_all)
  then show ?thesis by (simp add: cs co c Let_def)
qed

text \<open>
  C7, as amended. \<open>vnet_csum\<close> returns the bitwise NOT of the end-around-carry
  fold to 16 bits of the buffer's 16-bit little-endian words: each addition to
  the 64-bit accumulator is an end-around-carry addition, and the fold to 32
  and then to 16 bits is the end-around-carry fold of the accumulator. On a
  frame of 60 bytes with \<open>NEEDS_CSUM\<close>, \<open>csum_start = 14\<close> and \<open>csum_offset = 16\<close>
  the frame goes to the stack with the 16-bit word at offset 30 equal to the
  bitwise NOT of the folded sum over bytes 14 to 59 as they were received, the
  other bytes unchanged.
\<close>

theorem vnet_csum_ones_complement:
  "vnet_csum buf = NOT (ones_complement_sum buf) \<and>
   unat (csum_add acc s) = eac_fold 64 (unat acc + unat s) \<and>
   unat (csum_fold acc) = eac_fold 16 (eac_fold 32 (unat acc)) \<and>
   (60 \<le> length (payload x) \<and> 60 \<le> pbuf_len x \<and>
    flags (hdr x) AND VIRTIO_NET_HDR_F_NEEDS_CSUM \<noteq> 0 \<and>
    csum_start (hdr x) = 14 \<and> csum_offset (hdr x) = 16 \<longrightarrow>
      (\<exists>frame. input hl x (hl + 60) ok = RxStack ok frame \<and> length frame = 60 \<and>
         load16 (drop 30 frame) = NOT (ones_complement_sum (take 46 (drop 14 (payload x)))) \<and>
         (\<forall>i<60. i \<noteq> 30 \<and> i \<noteq> 31 \<longrightarrow> frame ! i = payload x ! i)))"
proof (intro conjI impI)
  show "vnet_csum buf = NOT (ones_complement_sum buf)" by (rule vnet_csum_sum16)
  show "unat (csum_add acc s) = eac_fold 64 (unat acc + unat s)"
    using eac_fold_norm[of 64 "unat acc + unat s"] by (simp add: csum_add_eac)
  have "eac_norm (2 ^ 16 - 1) (eac_norm (2 ^ 32 - 1) (unat acc)) = eac_norm (2 ^ 16 - 1) (unat acc)"
    by (rule eac_norm_dvd) simp
  then show "unat (csum_fold acc) = eac_fold 16 (eac_fold 32 (unat acc))"
    using eac_fold_norm[of 32 "unat acc"] eac_fold_norm[of 16 "eac_fold 32 (unat acc)"]
    by (simp add: csum_fold_eac)
next
  assume h: "60 \<le> length (payload x) \<and> 60 \<le> pbuf_len x \<and>
    flags (hdr x) AND VIRTIO_NET_HDR_F_NEEDS_CSUM \<noteq> 0 \<and>
    csum_start (hdr x) = 14 \<and> csum_offset (hdr x) = 16"
  define c where "c = vnet_csum (take 46 (drop 14 (payload x)))"
  define frame where "frame = take 60 ((payload x) [30 := ucast c, 31 := ucast (drop_bit 8 c)])"
  have i: "input hl x (hl + 60) ok = RxStack ok frame"
    unfolding frame_def by (rule input_frame60) (use h c_def in simp_all)
  have l: "length frame = 60" using h by (simp add: frame_def)
  have d: "drop 30 frame = ucast c # ucast (drop_bit 8 c) # drop 32 frame"
  proof -
    have "frame ! 30 = ucast c" "frame ! 31 = ucast (drop_bit 8 c)"
      using h by (simp_all add: frame_def)
    moreover have "drop 30 frame = frame ! 30 # drop 31 frame"
      using l Cons_nth_drop_Suc[of 30 frame] by simp
    moreover have "drop 31 frame = frame ! 31 # drop 32 frame"
      using l Cons_nth_drop_Suc[of 31 frame] by simp
    ultimately show ?thesis by simp
  qed
  have w: "load16 (drop 30 frame) = NOT (ones_complement_sum (take 46 (drop 14 (payload x))))"
    unfolding d load16_store by (simp add: c_def vnet_csum_sum16)
  have r: "\<forall>i<60. i \<noteq> 30 \<and> i \<noteq> 31 \<longrightarrow> frame ! i = payload x ! i"
    by (simp add: frame_def)
  from i l w r show "\<exists>frame. input hl x (hl + 60) ok = RxStack ok frame \<and> length frame = 60 \<and>
         load16 (drop 30 frame) = NOT (ones_complement_sum (take 46 (drop 14 (payload x)))) \<and>
         (\<forall>i<60. i \<noteq> 30 \<and> i \<noteq> 31 \<longrightarrow> frame ! i = payload x ! i)" by blast
qed

lemma frame60_csum: "vnet_csum (take 46 (drop 14 (payload frame60))) = 0x61b8"
  by (simp add: frame60_def vnet_csum_def csum_words.simps csum_tail_def csum_fold_def
      csum_add_def load64_def load32_def load16_def)

theorem vnet_csum_ones_complement_witness:
  "60 \<le> length (payload frame60) \<and> 60 \<le> pbuf_len frame60 \<and>
   flags (hdr frame60) AND VIRTIO_NET_HDR_F_NEEDS_CSUM \<noteq> 0 \<and>
   csum_start (hdr frame60) = 14 \<and> csum_offset (hdr frame60) = 16 \<and>
   (\<exists>frame. input 12 frame60 72 True = RxStack True frame \<and> length frame = 60 \<and>
      load16 (drop 30 frame) = 0x61b8)"
proof -
  have h: "60 \<le> length (payload frame60)" "60 \<le> pbuf_len frame60"
    "flags (hdr frame60) AND VIRTIO_NET_HDR_F_NEEDS_CSUM \<noteq> 0"
    "csum_start (hdr frame60) = 14" "csum_offset (hdr frame60) = 16"
    by (simp_all add: frame60_def VIRTIO_NET_HDR_F_NEEDS_CSUM_def word_le_nat_alt)
  note t = vnet_csum_ones_complement[of "take 46 (drop 14 (payload frame60))" 0 0 frame60 12 True]
  from t have s: "NOT (ones_complement_sum (take 46 (drop 14 (payload frame60)))) = 0x61b8"
    using frame60_csum by simp
  from t h obtain frame where "input 12 frame60 (12 + 60) True = RxStack True frame"
    "length frame = 60"
    "load16 (drop 30 frame) = NOT (ones_complement_sum (take 46 (drop 14 (payload frame60))))"
    by blast
  with s have "input 12 frame60 72 True = RxStack True frame \<and> length frame = 60 \<and>
      load16 (drop 30 frame) = 0x61b8" by simp
  with h show ?thesis by blast
qed

text \<open>
  The claim as stated has the word at offset 30 equal to the folded sum
  itself. On the frame above the folded sum over bytes 14 to 59 is \<open>0x9e47\<close>
  as the frame was received and \<open>0x573f\<close> as it is handed on, and the word
  written at offset 30 is \<open>0x61b8\<close>, the bitwise NOT of the first.
\<close>

lemma input_frame60_out: "input 12 frame60 72 True = RxStack True frame60_out"
proof -
  have "input 12 frame60 (12 + 60) True =
          RxStack True (take 60 ((payload frame60)
             [30 := ucast (vnet_csum (take 46 (drop 14 (payload frame60)))),
              31 := ucast (drop_bit 8 (vnet_csum (take 46 (drop 14 (payload frame60)))))]))"
    by (rule input_frame60)
       (simp_all add: frame60_def VIRTIO_NET_HDR_F_NEEDS_CSUM_def word_le_nat_alt)
  then show ?thesis
    unfolding frame60_csum by (simp add: frame60_def frame60_out_def)
qed

lemma frame60_sum16:
  "sum16 (take 46 (drop 14 (payload frame60))) = 171589"
  "sum16 (take 46 (drop 14 frame60_out)) = 153405"
  by (simp_all add: frame60_def frame60_out_def)

lemma frame60_fold:
  "eac_fold 16 171589 = 40519"
  "eac_fold 16 153405 = 22335"
  by (simp_all add: eac_fold.simps)

theorem vnet_csum_counterexample:
  "input 12 frame60 72 True = RxStack True frame60_out \<and>
   load16 (drop 30 frame60_out) = 0x61b8 \<and>
   ones_complement_sum (take 46 (drop 14 (payload frame60))) = 0x9e47 \<and>
   ones_complement_sum (take 46 (drop 14 frame60_out)) = 0x573f \<and>
   load16 (drop 30 frame60_out) \<noteq> ones_complement_sum (take 46 (drop 14 (payload frame60))) \<and>
   load16 (drop 30 frame60_out) \<noteq> ones_complement_sum (take 46 (drop 14 frame60_out))"
proof -
  have l: "load16 (drop 30 frame60_out) = 0x61b8"
    by (simp add: frame60_out_def load16_def)
  have a: "ones_complement_sum (take 46 (drop 14 (payload frame60))) = 0x9e47"
    unfolding ones_complement_sum_def frame60_sum16 frame60_fold by simp
  have b: "ones_complement_sum (take 46 (drop 14 frame60_out)) = 0x573f"
    unfolding ones_complement_sum_def frame60_sum16 frame60_fold by simp
  show ?thesis unfolding l a b using input_frame60_out by simp
qed

end
